theory Spec2Isabelle
  imports Main
begin

section \<open>AI Quick Fix: the CLI route engine of \<^verbatim>\<open>src/extension.ts\<close>\<close>

text \<open>
  A shallow embedding of the route catalog, the process executor, the route prober, the
  route resolver and the fixer runner of \<^verbatim>\<open>extension.ts\<close>. JavaScript strings are
  \<open>string\<close> (a list of characters, \<open>length\<close> counting code units), \<open>undefined\<close> and
  \<open>null\<close> are \<open>None\<close>, the module-level \<open>Map\<close> caches are maps in an explicit state
  record, and everything the code reads from its environment (process outcomes, the host's
  command list, settings) is a parameter.
\<close>

subsection \<open>Strings\<close>

definition startsWith :: "string \<Rightarrow> string \<Rightarrow> bool" where
  "startsWith s p = (take (length p) s = p)"

fun includes_str :: "string \<Rightarrow> string \<Rightarrow> bool" where
  "includes_str [] sub = (sub = [])"
| "includes_str (c # cs) sub = (startsWith (c # cs) sub \<or> includes_str cs sub)"

definition lower_char :: "char \<Rightarrow> char" where
  "lower_char c =
     (if 65 \<le> (of_char c :: nat) \<and> (of_char c :: nat) \<le> 90
      then char_of ((of_char c :: nat) + 32) else c)"

text \<open>\<open>toLowerCase\<close>, on the ASCII letters (the phrases the code looks for are ASCII).\<close>

definition toLowerCase :: "string \<Rightarrow> string" where
  "toLowerCase s = map lower_char s"

text \<open>\<open>value.replace(/'/g, `'\\''`)\<close> between two single quotes.\<close>

definition quoteForPosixShell :: "string \<Rightarrow> string" where
  "quoteForPosixShell v =
     [CHR 0x27]
     @ concat (map (\<lambda>c. if c = CHR 0x27 then [CHR 0x27, CHR 0x5C, CHR 0x27, CHR 0x27] else [c]) v)
     @ [CHR 0x27]"

subsection \<open>Data model\<close>

datatype CliFixerId = CodexCli | ClaudeCli

record CommandSpec =
  command :: string
  args :: "string list"

record CliRoute =
  route_id :: string
  display :: string
  probe :: CommandSpec
  buildRun :: "string \<Rightarrow> CommandSpec"

record ProcessResult =
  exitCode :: "int option"
  stdout :: string
  stderr :: string
  timedOut :: bool
  errorCode :: "string option"

definition CLI_PROBE_TIMEOUT_MS :: nat where
  "CLI_PROBE_TIMEOUT_MS = 3000"

definition CLI_RUN_TIMEOUT_MS :: nat where
  "CLI_RUN_TIMEOUT_MS = 180000"

definition MAX_PROCESS_OUTPUT_CHARS :: nat where
  "MAX_PROCESS_OUTPUT_CHARS = 12000"

subsection \<open>Route Catalog\<close>

text \<open>
  The four argument variants of \<open>getCodexCliRoutes\<close>, in the order of the source's
  \<open>variants\<close> array; \<open>runShell\<close> closes over the binary of the enclosing loop.
\<close>

record CodexVariant =
  idSuffix :: string
  displaySuffix :: string
  runArgs :: "string \<Rightarrow> string list"
  runShell :: "string \<Rightarrow> string"

definition codexVariants :: "string \<Rightarrow> CodexVariant list" where
  "codexVariants binary =
    [ \<lparr> idSuffix = ''workspace-write-skipgit'',
        displaySuffix = '' (--sandbox workspace-write --skip-git-repo-check)'',
        runArgs = (\<lambda>prompt. [''exec'', ''--sandbox'', ''workspace-write'', ''--skip-git-repo-check'', prompt]),
        runShell = (\<lambda>prompt. binary @ '' exec --sandbox workspace-write --skip-git-repo-check ''
                       @ quoteForPosixShell prompt) \<rparr>,
      \<lparr> idSuffix = ''auto-skipgit'',
        displaySuffix = '' (--full-auto --skip-git-repo-check)'',
        runArgs = (\<lambda>prompt. [''exec'', ''--full-auto'', ''--skip-git-repo-check'', prompt]),
        runShell = (\<lambda>prompt. binary @ '' exec --full-auto --skip-git-repo-check ''
                       @ quoteForPosixShell prompt) \<rparr>,
      \<lparr> idSuffix = ''skipgit'',
        displaySuffix = '' (--skip-git-repo-check)'',
        runArgs = (\<lambda>prompt. [''exec'', ''--skip-git-repo-check'', prompt]),
        runShell = (\<lambda>prompt. binary @ '' exec --skip-git-repo-check '' @ quoteForPosixShell prompt) \<rparr>,
      \<lparr> idSuffix = ''plain'',
        displaySuffix = '''',
        runArgs = (\<lambda>prompt. [''exec'', prompt]),
        runShell = (\<lambda>prompt. binary @ '' exec '' @ quoteForPosixShell prompt) \<rparr> ]"

text \<open>The four routes pushed for one binary and one variant (the inner loop's body).\<close>

definition codexVariantRoutes :: "string \<Rightarrow> CodexVariant \<Rightarrow> CliRoute list" where
  "codexVariantRoutes binary variant =
    [ \<lparr> route_id = ''native:'' @ binary @ '':exec:'' @ idSuffix variant,
        display = binary @ '' exec'' @ displaySuffix variant,
        probe = \<lparr> command = binary, args = [''exec'', ''--help''] \<rparr>,
        buildRun = (\<lambda>prompt. \<lparr> command = binary, args = runArgs variant prompt \<rparr>) \<rparr>,
      \<lparr> route_id = ''bash:'' @ binary @ '':exec:'' @ idSuffix variant,
        display = ''bash -> '' @ binary @ '' exec'' @ displaySuffix variant,
        probe = \<lparr> command = ''bash'', args = [''-lc'', binary @ '' exec --help''] \<rparr>,
        buildRun = (\<lambda>prompt. \<lparr> command = ''bash'', args = [''-lc'', runShell variant prompt] \<rparr>) \<rparr>,
      \<lparr> route_id = ''wsl:'' @ binary @ '':exec:'' @ idSuffix variant,
        display = ''wsl bash -> '' @ binary @ '' exec'' @ displaySuffix variant,
        probe = \<lparr> command = ''wsl'', args = [''bash'', ''-lc'', binary @ '' exec --help''] \<rparr>,
        buildRun = (\<lambda>prompt. \<lparr> command = ''wsl'',
                                args = [''bash'', ''-lc'', runShell variant prompt] \<rparr>) \<rparr>,
      \<lparr> route_id = ''wsl-exec:'' @ binary @ '':exec:'' @ idSuffix variant,
        display = ''wsl --exec '' @ binary @ '' exec'' @ displaySuffix variant,
        probe = \<lparr> command = ''wsl'', args = [''--exec'', binary, ''exec'', ''--help''] \<rparr>,
        buildRun = (\<lambda>prompt. \<lparr> command = ''wsl'',
                                args = [''--exec'', binary] @ runArgs variant prompt \<rparr>) \<rparr> ]"

definition codexBinaries :: "string list" where
  "codexBinaries = [''codex'', ''codex-cli'']"

definition getCodexCliRoutes :: "CliRoute list" where
  "getCodexCliRoutes =
     concat (map (\<lambda>binary. concat (map (codexVariantRoutes binary) (codexVariants binary)))
                 codexBinaries)"

text \<open>The five routes pushed for one binary by \<open>getClaudeCliRoutes\<close> (the loop's body).\<close>

definition claudeBinaryRoutes :: "string \<Rightarrow> CliRoute list" where
  "claudeBinaryRoutes binary =
    [ \<lparr> route_id = ''native:'' @ binary @ '':p'',
        display = binary @ '' -p'',
        probe = \<lparr> command = binary, args = [''--help''] \<rparr>,
        buildRun = (\<lambda>prompt. \<lparr> command = binary, args = [''-p'', prompt] \<rparr>) \<rparr>,
      \<lparr> route_id = ''native:'' @ binary @ '':print'',
        display = binary @ '' --print'',
        probe = \<lparr> command = binary, args = [''--help''] \<rparr>,
        buildRun = (\<lambda>prompt. \<lparr> command = binary, args = [''--print'', prompt] \<rparr>) \<rparr>,
      \<lparr> route_id = ''bash:'' @ binary @ '':p'',
        display = ''bash -> '' @ binary @ '' -p'',
        probe = \<lparr> command = ''bash'', args = [''-lc'', binary @ '' --help''] \<rparr>,
        buildRun = (\<lambda>prompt. \<lparr> command = ''bash'',
                                args = [''-lc'', binary @ '' -p '' @ quoteForPosixShell prompt] \<rparr>) \<rparr>,
      \<lparr> route_id = ''wsl:'' @ binary @ '':p'',
        display = ''wsl bash -> '' @ binary @ '' -p'',
        probe = \<lparr> command = ''wsl'', args = [''bash'', ''-lc'', binary @ '' --help''] \<rparr>,
        buildRun = (\<lambda>prompt. \<lparr> command = ''wsl'',
                                args = [''bash'', ''-lc'', binary @ '' -p '' @ quoteForPosixShell prompt] \<rparr>) \<rparr>,
      \<lparr> route_id = ''wsl-exec:'' @ binary @ '':p'',
        display = ''wsl --exec '' @ binary @ '' -p'',
        probe = \<lparr> command = ''wsl'', args = [''--exec'', binary, ''--help''] \<rparr>,
        buildRun = (\<lambda>prompt. \<lparr> command = ''wsl'', args = [''--exec'', binary, ''-p'', prompt] \<rparr>) \<rparr> ]"

definition claudeBinaries :: "string list" where
  "claudeBinaries = [''claude'', ''claude-cli'']"

definition getClaudeCliRoutes :: "CliRoute list" where
  "getClaudeCliRoutes = concat (map claudeBinaryRoutes claudeBinaries)"

text \<open>
  \<open>getCliRouteCandidates\<close>; the setting \<open>enable-wsl-routes\<close> that \<open>getCliSettings\<close>
  reads is the first argument.
\<close>

definition getCliRouteCandidates :: "bool \<Rightarrow> CliFixerId \<Rightarrow> CliRoute list" where
  "getCliRouteCandidates enableWslRoutes fixerId =
     (let routes = (if fixerId = CodexCli then getCodexCliRoutes else getClaudeCliRoutes)
      in if \<not> enableWslRoutes then filter (\<lambda>route. \<not> startsWith (route_id route) ''wsl'') routes
         else routes)"

definition isRouteAvailable :: "bool \<Rightarrow> CliFixerId \<Rightarrow> string \<Rightarrow> bool" where
  "isRouteAvailable enableWslRoutes fixerId routeId =
     list_ex (\<lambda>route. route_id route = routeId) (getCliRouteCandidates enableWslRoutes fixerId)"

subsection \<open>Preferred route and candidate order\<close>

text \<open>\<open>!routeId\<close> holds for \<open>undefined\<close> and for the empty string.\<close>

definition getDiscoveryPreferredRouteId :: "CliFixerId \<Rightarrow> string option \<Rightarrow> string option" where
  "getDiscoveryPreferredRouteId fixerId routeId =
     (case routeId of
        None \<Rightarrow> None
      | Some i \<Rightarrow>
          if i = [] then None
          else if fixerId \<noteq> CodexCli then Some i
          else if includes_str i '':workspace-write'' then Some i
          else None)"

definition orderRoutesWithPreferred :: "CliRoute list \<Rightarrow> string option \<Rightarrow> CliRoute list" where
  "orderRoutesWithPreferred routes preferredId =
     (case preferredId of
        None \<Rightarrow> routes
      | Some p \<Rightarrow>
          if p = [] then routes
          else (case find (\<lambda>route. route_id route = p) routes of
                  None \<Rightarrow> routes
                | Some preferred \<Rightarrow> preferred # filter (\<lambda>route. route_id route \<noteq> p) routes))"

text \<open>
  The list \<open>routes\<close> that \<open>discoverCliRoute\<close> probes in order, as a function of the
  setting and of what \<open>getPersistedRouteId\<close> returned.
\<close>

definition discoveryRoutes :: "bool \<Rightarrow> CliFixerId \<Rightarrow> string option \<Rightarrow> CliRoute list" where
  "discoveryRoutes enableWslRoutes fixerId persistedId =
     orderRoutesWithPreferred (getCliRouteCandidates enableWslRoutes fixerId)
       (getDiscoveryPreferredRouteId fixerId persistedId)"



text \<open>A route's transport goes through the OS bridge when its probe launches \<open>wsl\<close>.\<close>

definition usesOsBridge :: "CliRoute \<Rightarrow> bool" where
  "usesOsBridge route = (command (probe route) = ''wsl'')"

subsection \<open>Process Executor\<close>

definition appendOutput :: "string \<Rightarrow> string \<Rightarrow> string" where
  "appendOutput current chunk =
     (if length current \<ge> MAX_PROCESS_OUTPUT_CHARS then current
      else (let remaining = MAX_PROCESS_OUTPUT_CHARS - length current
            in current @ take remaining chunk))"

text \<open>
  What the environment does to one call of \<open>runCommand\<close>: either \<open>spawn\<close> throws (the
  error's \<open>code\<close> and \<open>message\<close>), or the child exists and a sequence of events reaches
  the handlers that \<open>runCommand\<close> registers: data on either stream, the timeout timer,
  the child's \<open>error\<close> event (code, message) and its \<open>close\<close> event (exit code or null).
\<close>

datatype ChildEvent =
    StdoutData string
  | StderrData string
  | TimerFired
  | ErrorEvent "string option" string
  | CloseEvent "int option"

datatype SpawnOutcome =
    SpawnThrows "string option" string
  | Spawned "ChildEvent list"

text \<open>
  The local variables of the promise body. \<open>resolved\<close> is the value \<open>finalize\<close> resolved
  the promise with (\<open>settled\<close> is \<open>resolved \<noteq> None\<close>); \<open>timerPending\<close> is false once the
  timer fired or \<open>clearTimeout\<close> ran.
\<close>

record RunState =
  cur_stdout :: string
  cur_stderr :: string
  cur_timedOut :: bool
  cur_errorCode :: "string option"
  resolved :: "ProcessResult option"
  timerPending :: bool

definition finalize :: "RunState \<Rightarrow> ProcessResult \<Rightarrow> RunState" where
  "finalize st result = (if resolved st \<noteq> None then st else st\<lparr>resolved := Some result\<rparr>)"

fun childStep :: "RunState \<Rightarrow> ChildEvent \<Rightarrow> RunState" where
  "childStep st (StdoutData chunk) = st\<lparr>cur_stdout := appendOutput (cur_stdout st) chunk\<rparr>"
| "childStep st (StderrData chunk) = st\<lparr>cur_stderr := appendOutput (cur_stderr st) chunk\<rparr>"
| "childStep st TimerFired =
     (if timerPending st then st\<lparr>cur_timedOut := True, timerPending := False\<rparr> else st)"
| "childStep st (ErrorEvent code message) =
     (let st1 = st\<lparr>cur_errorCode := code, timerPending := False\<rparr>
      in finalize st1
           \<lparr> exitCode = None, stdout = cur_stdout st1,
             stderr = appendOutput (cur_stderr st1) message,
             timedOut = False, errorCode = cur_errorCode st1 \<rparr>)"
| "childStep st (CloseEvent code) =
     (let st1 = st\<lparr>timerPending := False\<rparr>
      in finalize st1
           \<lparr> exitCode = code, stdout = cur_stdout st1, stderr = cur_stderr st1,
             timedOut = cur_timedOut st1, errorCode = cur_errorCode st1 \<rparr>)"

definition initialRunState :: RunState where
  "initialRunState =
     \<lparr> cur_stdout = [], cur_stderr = [], cur_timedOut = False, cur_errorCode = None,
       resolved = None, timerPending = True \<rparr>"

text \<open>
  \<open>runCommand\<close>: the value the promise resolves with, \<open>None\<close> when neither \<open>error\<close> nor
  \<open>close\<close> ever arrives (the promise stays pending).
\<close>

definition runCommand :: "SpawnOutcome \<Rightarrow> ProcessResult option" where
  "runCommand outcome =
     (case outcome of
        SpawnThrows code message \<Rightarrow>
          Some \<lparr> exitCode = None, stdout = [], stderr = message,
                 timedOut = False, errorCode = code \<rparr>
      | Spawned events \<Rightarrow> resolved (foldl childStep initialRunState events))"







subsection \<open>Classifying a result\<close>

text \<open>\<open>!result.errorCode\<close>: the code is \<open>undefined\<close> or the empty string.\<close>

definition noErrorCode :: "ProcessResult \<Rightarrow> bool" where
  "noErrorCode result = (errorCode result = None \<or> errorCode result = Some [])"

definition isProcessSuccess :: "ProcessResult \<Rightarrow> bool" where
  "isProcessSuccess result =
     (\<not> timedOut result \<and> noErrorCode result \<and> exitCode result = Some 0)"

definition outputLower :: "ProcessResult \<Rightarrow> string" where
  "outputLower result = toLowerCase (stdout result @ [CHR 0x0A] @ stderr result)"

definition isInvocationFailure :: "ProcessResult \<Rightarrow> bool" where
  "isInvocationFailure result =
     (if errorCode result = Some ''ENOENT'' then True
      else if exitCode result = Some 127 then True
      else (let output = outputLower result
            in includes_str output ''not found''
             \<or> includes_str output ''command not found''
             \<or> includes_str output ''unknown option''
             \<or> includes_str output ''unexpected argument''
             \<or> includes_str output ''unrecognized option''
             \<or> includes_str output ''invalid option''
             \<or> includes_str output ''unknown command''
             \<or> includes_str output ''no such file or directory''
             \<or> includes_str output ''is not recognized as an internal or external command''))"

definition isReadOnlySandboxNotice :: "ProcessResult \<Rightarrow> bool" where
  "isReadOnlySandboxNotice result =
     (let output = outputLower result
      in includes_str output ''read-only sandbox''
       \<or> includes_str output (''couldn'' @ [CHR 0x27] @ ''t save due read-only sandbox permissions'')
       \<or> includes_str output ''could not save due read-only sandbox permissions'')"

text \<open>
  The branch \<open>runCliFix\<close> takes on a run result, in the order of its tests: the sandbox
  notice first, then success, then the split of the remaining failures.
\<close>

datatype RunClass = SandboxNotice | Success | InvocationFailure | HardFailure

definition classify :: "ProcessResult \<Rightarrow> RunClass" where
  "classify result =
     (if isReadOnlySandboxNotice result then SandboxNotice
      else if isProcessSuccess result then Success
      else if isInvocationFailure result then InvocationFailure
      else HardFailure)"

subsection \<open>Module state and environment of the resolver and the runner\<close>

text \<open>
  The module-level state, passed explicitly. \<open>cliRouteCache\<close> maps a fixer kind to
  nothing (\<open>has\<close> is false), to \<open>Some None\<close> (the entry \<open>null\<close>) or to a route;
  \<open>globalState\<close> is the record stored under \<open>CLI_ROUTE_STATE_KEY\<close> (a non-string value
  reads as absent in \<open>getPersistedRouteId\<close>, so only strings are kept);
  \<open>extensionContextRef\<close> tells whether the context is set; \<open>cfgEnableWslRoutes\<close> is the
  setting \<open>getCliSettings\<close> reads; \<open>spawnCount\<close> counts the processes run so far.
  One request runs at a time, so the in-flight registries \<open>cliRouteDiscovery\<close> and
  \<open>cliProbeDiscovery\<close> are empty whenever they are consulted and are left out.
\<close>

record World =
  cliRouteCache :: "CliFixerId \<rightharpoonup> CliRoute option"
  cliProbeCache :: "string \<rightharpoonup> bool"
  extensionContextRef :: bool
  globalState :: "CliFixerId \<rightharpoonup> string"
  cfgEnableWslRoutes :: bool
  spawnCount :: nat

text \<open>
  The environment of the resolver and the runner: the result that the awaited
  \<open>runCommand\<close> resolves with, for the n-th process run, its command, working directory
  and timeout. Every awaited process is taken to settle, and any result is allowed, those
  that \<open>runCommand\<close> above can resolve with among them.
\<close>

type_synonym Executor = "nat \<Rightarrow> CommandSpec \<Rightarrow> string \<Rightarrow> nat \<Rightarrow> ProcessResult"

definition awaitRunCommand ::
  "Executor \<Rightarrow> CommandSpec \<Rightarrow> string \<Rightarrow> nat \<Rightarrow> World \<Rightarrow> ProcessResult \<times> World" where
  "awaitRunCommand exec spec cwd timeoutMs w =
     (exec (spawnCount w) spec cwd timeoutMs, w\<lparr>spawnCount := Suc (spawnCount w)\<rparr>)"

subsection \<open>Route Prober\<close>

fun joinWith :: "string \<Rightarrow> string list \<Rightarrow> string" where
  "joinWith sep [] = []"
| "joinWith sep [x] = x"
| "joinWith sep (x # y # ys) = x @ sep @ joinWith sep (y # ys)"

definition probeKey :: "string \<Rightarrow> CliRoute \<Rightarrow> string" where
  "probeKey cwd route =
     cwd @ [CHR 0x00] @ command (probe route) @ [CHR 0x00]
       @ joinWith [CHR 0x00] (args (probe route))"

definition probeRoute :: "Executor \<Rightarrow> CliRoute \<Rightarrow> string \<Rightarrow> World \<Rightarrow> bool \<times> World" where
  "probeRoute exec route cwd w =
     (let key = probeKey cwd route
      in case cliProbeCache w key of
           Some cached \<Rightarrow> (cached, w)
         | None \<Rightarrow>
             (let (result, w1) = awaitRunCommand exec (probe route) cwd CLI_PROBE_TIMEOUT_MS w;
                  success = isProcessSuccess result
              in (success, w1\<lparr>cliProbeCache := (cliProbeCache w1)(key \<mapsto> success)\<rparr>)))"

subsection \<open>Route Resolver\<close>

definition getPersistedRouteId :: "World \<Rightarrow> CliFixerId \<Rightarrow> string option" where
  "getPersistedRouteId w fixerId =
     (if \<not> extensionContextRef w then None else globalState w fixerId)"

definition setCachedCliRoute :: "CliFixerId \<Rightarrow> CliRoute option \<Rightarrow> World \<Rightarrow> World" where
  "setCachedCliRoute fixerId route w =
     (let w1 = w\<lparr>cliRouteCache := (cliRouteCache w)(fixerId \<mapsto> route)\<rparr>
      in if \<not> extensionContextRef w1 then w1
         else (case route of
                 Some r \<Rightarrow> w1\<lparr>globalState := (globalState w1)(fixerId \<mapsto> route_id r)\<rparr>
               | None \<Rightarrow> w1\<lparr>globalState := (globalState w1)(fixerId := None)\<rparr>))"

text \<open>The loop of \<open>discoverCliRoute\<close> and the statements after it.\<close>

fun discoverLoop ::
  "Executor \<Rightarrow> CliFixerId \<Rightarrow> string \<Rightarrow> CliRoute list \<Rightarrow> World \<Rightarrow> CliRoute option \<times> World" where
  "discoverLoop exec fixerId cwd [] w = (None, setCachedCliRoute fixerId None w)"
| "discoverLoop exec fixerId cwd (route # routes) w =
     (let (ok, w1) = probeRoute exec route cwd w
      in if ok then (Some route, setCachedCliRoute fixerId (Some route) w1)
         else discoverLoop exec fixerId cwd routes w1)"

text \<open>\<open>probeCwd\<close> is what \<open>getProbeWorkingDirectory\<close> returns.\<close>

definition discoverCliRoute ::
  "Executor \<Rightarrow> string \<Rightarrow> CliFixerId \<Rightarrow> World \<Rightarrow> CliRoute option \<times> World" where
  "discoverCliRoute exec probeCwd fixerId w =
     discoverLoop exec fixerId probeCwd
       (discoveryRoutes (cfgEnableWslRoutes w) fixerId (getPersistedRouteId w fixerId)) w"

definition getCliRoute ::
  "Executor \<Rightarrow> string \<Rightarrow> CliFixerId \<Rightarrow> bool \<Rightarrow> World \<Rightarrow> CliRoute option \<times> World" where
  "getCliRoute exec probeCwd fixerId forceRefresh w =
     (case (if forceRefresh then None else cliRouteCache w fixerId) of
        Some None \<Rightarrow> (None, w)
      | Some (Some cached) \<Rightarrow>
          if isRouteAvailable (cfgEnableWslRoutes w) fixerId (route_id cached) then (Some cached, w)
          else discoverCliRoute exec probeCwd fixerId (setCachedCliRoute fixerId None w)
      | None \<Rightarrow> discoverCliRoute exec probeCwd fixerId w)"

subsection \<open>Fixer Runner\<close>

text \<open>
  An entry of \<open>failures\<close>: the route's display and what the pushed text is rendered from
  (the fixed sandbox sentence, or \<open>formatProcessFailure\<close> of the result). The rendering
  of the report is not modelled.
\<close>

datatype Failure =
    SandboxFailure string
  | ProcessFailure string ProcessResult

text \<open>
  The log of what the loop did, by route id: each call of \<open>probeRoute\<close> with its answer
  and each call of \<open>runCommand\<close> with its result. The source keeps no such log; the
  field \<open>trace\<close> below records the calls so that their order can be stated.
\<close>

datatype LoopEvent =
    Probed string bool
  | Ran string ProcessResult

record LoopState =
  world :: World
  failures :: "Failure list"
  sawInvocationFailureOnly :: bool
  trace :: "LoopEvent list"

text \<open>
  One pass through the body of the \<open>for\<close> loop of \<open>runCliFix\<close>, with how it leaves the
  body: \<open>continue\<close> (or the end of the body), \<open>break\<close>, or \<open>return\<close> after a success.
\<close>

datatype Control =
    Continue LoopState
  | Break LoopState
  | Return CliRoute LoopState

definition loopBody ::
  "Executor \<Rightarrow> CliFixerId \<Rightarrow> string \<Rightarrow> string \<Rightarrow> string \<Rightarrow> CliRoute \<Rightarrow> LoopState \<Rightarrow> Control" where
  "loopBody exec fixerId cwd cliPrompt baseId route ls =
     (let (probeOk, ls1) =
            (if route_id route \<noteq> baseId
             then (let (ok, w1) = probeRoute exec route cwd (world ls)
                   in (ok, ls\<lparr>world := w1, trace := trace ls @ [Probed (route_id route) ok]\<rparr>))
             else (True, ls))
      in if \<not> probeOk then Continue ls1
         else
          (let (result, w2) =
                 awaitRunCommand exec (buildRun route cliPrompt) cwd CLI_RUN_TIMEOUT_MS (world ls1);
               ls2 = ls1\<lparr>world := w2, trace := trace ls1 @ [Ran (route_id route) result]\<rparr>
           in if isReadOnlySandboxNotice result
              then Continue (ls2\<lparr>sawInvocationFailureOnly := False,
                                failures := failures ls2 @ [SandboxFailure (display route)]\<rparr>)
              else if isProcessSuccess result
              then Return route (ls2\<lparr>world := setCachedCliRoute fixerId (Some route) (world ls2)\<rparr>)
              else
               (let ls3 = ls2\<lparr>failures := failures ls2 @ [ProcessFailure (display route) result]\<rparr>
                in if \<not> isInvocationFailure result
                   then Break (ls3\<lparr>sawInvocationFailureOnly := False\<rparr>)
                   else Continue ls3)))"

text \<open>
  The loop over \<open>routes\<close>. The result is the route whose run succeeded, or \<open>None\<close> when
  the loop ends by exhaustion or by \<open>break\<close>.
\<close>

fun runLoop ::
  "Executor \<Rightarrow> CliFixerId \<Rightarrow> string \<Rightarrow> string \<Rightarrow> string \<Rightarrow> CliRoute list \<Rightarrow> LoopState
     \<Rightarrow> CliRoute option \<times> LoopState" where
  "runLoop exec fixerId cwd cliPrompt baseId [] ls = (None, ls)"
| "runLoop exec fixerId cwd cliPrompt baseId (route # routes) ls =
     (case loopBody exec fixerId cwd cliPrompt baseId route ls of
        Continue ls1 \<Rightarrow> runLoop exec fixerId cwd cliPrompt baseId routes ls1
      | Break ls1 \<Rightarrow> (None, ls1)
      | Return succeeded ls1 \<Rightarrow> (Some succeeded, ls1))"

datatype RunError =
    NoWorkingRoute
  | FixFailed "Failure list"

text \<open>The list \<open>routes\<close> that the loop of \<open>runCliFix\<close> iterates.\<close>

definition runOrder :: "World \<Rightarrow> CliFixerId \<Rightarrow> CliRoute \<Rightarrow> CliRoute list" where
  "runOrder w fixerId baseRoute =
     orderRoutesWithPreferred (getCliRouteCandidates (cfgEnableWslRoutes w) fixerId)
       (Some (route_id baseRoute))"

definition initialLoopState :: "World \<Rightarrow> LoopState" where
  "initialLoopState w =
     \<lparr> world = w, failures = [], sawInvocationFailureOnly = True, trace = [] \<rparr>"

text \<open>
  \<open>runCliFix\<close>: \<open>cwd\<close> and \<open>cliPrompt\<close> are what \<open>getCommandWorkingDirectory\<close> and
  \<open>buildCliPrompt\<close> return. The result is the thrown error or the route that succeeded,
  with the state left behind and the loop's log.
\<close>

definition runCliFix ::
  "Executor \<Rightarrow> string \<Rightarrow> string \<Rightarrow> string \<Rightarrow> CliFixerId \<Rightarrow> World
     \<Rightarrow> (RunError + CliRoute) \<times> World \<times> LoopEvent list" where
  "runCliFix exec probeCwd cwd cliPrompt fixerId w =
     (let (baseRoute, w1) = getCliRoute exec probeCwd fixerId False w
      in case baseRoute of
           None \<Rightarrow> (Inl NoWorkingRoute, w1, [])
         | Some base \<Rightarrow>
             (let (succeeded, ls) =
                    runLoop exec fixerId cwd cliPrompt (route_id base) (runOrder w1 fixerId base)
                      (initialLoopState w1)
              in case succeeded of
                   Some route \<Rightarrow> (Inr route, world ls, trace ls)
                 | None \<Rightarrow>
                     (Inl (FixFailed (failures ls)),
                      (if sawInvocationFailureOnly ls
                       then setCachedCliRoute fixerId None (world ls) else world ls),
                      trace ls)))"

subsection \<open>Host command availability\<close>

text \<open>
  \<open>isCommandAvailable\<close>: \<open>hostCommands\<close> is what \<open>vscode.commands.getCommands(true)\<close>
  would return at the time of the call; the cache \<open>commandAvailabilityCache\<close> is passed
  and returned.
\<close>

definition isCommandAvailable ::
  "string list \<Rightarrow> string \<Rightarrow> (string \<rightharpoonup> bool) \<Rightarrow> bool \<times> (string \<rightharpoonup> bool)" where
  "isCommandAvailable hostCommands cmd cache =
     (if cache cmd \<noteq> None then (True, cache)
      else (let available = (cmd \<in> set hostCommands)
            in (available, if available then cache(cmd \<mapsto> True) else cache)))"

text \<open>A sequence of calls, each with the host's command list of its moment.\<close>

fun isCommandAvailableCalls ::
  "(string list \<times> string) list \<Rightarrow> (string \<rightharpoonup> bool) \<Rightarrow> (string \<rightharpoonup> bool)" where
  "isCommandAvailableCalls [] cache = cache"
| "isCommandAvailableCalls ((hostCommands, cmd) # calls) cache =
     isCommandAvailableCalls calls (snd (isCommandAvailable hostCommands cmd cache))"

subsection \<open>Reading the loop's log\<close>

text \<open>
  A log is well formed for a base route id when it is a sequence of these blocks: a failed
  probe of a non-base route and nothing more for it; a successful probe of a non-base
  route directly followed by the run of that same route; a run of the base route with no
  probe.
\<close>

fun traceBlocks :: "string \<Rightarrow> LoopEvent list \<Rightarrow> bool" where
  "traceBlocks baseId [] = True"
| "traceBlocks baseId (Ran i result # tr) = (i = baseId \<and> traceBlocks baseId tr)"
| "traceBlocks baseId (Probed i False # tr) = (i \<noteq> baseId \<and> traceBlocks baseId tr)"
| "traceBlocks baseId (Probed i True # Ran j result # tr) =
     (i \<noteq> baseId \<and> j = i \<and> traceBlocks baseId tr)"
| "traceBlocks baseId (Probed i True # tr) = False"

text \<open>The route ids the loop visited, in order, one per block.\<close>

fun visited :: "LoopEvent list \<Rightarrow> string list" where
  "visited [] = []"
| "visited (Ran i result # tr) = i # visited tr"
| "visited (Probed i False # tr) = i # visited tr"
| "visited (Probed i True # Ran j result # tr) = i # visited tr"
| "visited (Probed i True # tr) = i # visited tr"

definition isInvocationFailureEvent :: "LoopEvent \<Rightarrow> bool" where
  "isInvocationFailureEvent e =
     (case e of Probed i ok \<Rightarrow> True | Ran i result \<Rightarrow> classify result = InvocationFailure)"

text \<open>Every run in the log was classified as an invocation failure (also when there is none).\<close>

definition allRunsInvocationFailures :: "LoopEvent list \<Rightarrow> bool" where
  "allRunsInvocationFailures tr = list_all isInvocationFailureEvent tr"

text \<open>The verdicts (cache entry and persisted id), the context and the setting are the same.\<close>

definition sameVerdicts :: "World \<Rightarrow> World \<Rightarrow> bool" where
  "sameVerdicts w w1 =
     (cliRouteCache w1 = cliRouteCache w \<and> globalState w1 = globalState w
      \<and> extensionContextRef w1 = extensionContextRef w
      \<and> cfgEnableWslRoutes w1 = cfgEnableWslRoutes w)"

text \<open>The events of one pass that runs the route: its successful probe unless it is the base
  route, then its run.\<close>

definition runBlock :: "string \<Rightarrow> CliRoute \<Rightarrow> ProcessResult \<Rightarrow> LoopEvent list" where
  "runBlock baseId route result =
     (if route_id route \<noteq> baseId
      then [Probed (route_id route) True, Ran (route_id route) result]
      else [Ran (route_id route) result])"

subsection \<open>Sample inputs\<close>

text \<open>
  A state in which the claude-cli kind has \<open>native:claude:p\<close> cached and persisted and
  bridge routes are off, and two environments: one where \<open>claude --help\<close> exits 0 and
  every other process exits 127; one where the first process prints a read-only-sandbox
  notice and every later one exits 127.
\<close>

definition sampleWorld :: World where
  "sampleWorld =
     \<lparr> cliRouteCache = [ClaudeCli \<mapsto> Some (hd getClaudeCliRoutes)],
       cliProbeCache = Map.empty,
       extensionContextRef = True,
       globalState = [ClaudeCli \<mapsto> ''native:claude:p''],
       cfgEnableWslRoutes = False,
       spawnCount = 0 \<rparr>"

definition exit127 :: ProcessResult where
  "exit127 = \<lparr> exitCode = Some 127, stdout = [], stderr = [], timedOut = False, errorCode = None \<rparr>"

definition helpOnlyExecutor :: Executor where
  "helpOnlyExecutor n spec cwd timeoutMs =
     (if command spec = ''claude'' \<and> args spec = [''--help'']
      then \<lparr> exitCode = Some 0, stdout = [], stderr = [], timedOut = False, errorCode = None \<rparr>
      else exit127)"

definition sandboxNoticeResult :: ProcessResult where
  "sandboxNoticeResult =
     \<lparr> exitCode = Some 0, stdout = ''read-only sandbox'', stderr = [], timedOut = False,
       errorCode = None \<rparr>"

definition sandboxFirstExecutor :: Executor where
  "sandboxFirstExecutor n spec cwd timeoutMs = (if n = 0 then sandboxNoticeResult else exit127)"

section \<open>Properties\<close>

subsection \<open>Route Catalog\<close>

lemmas catalog_defs =
  getCodexCliRoutes_def codexBinaries_def codexVariants_def codexVariantRoutes_def
  getClaudeCliRoutes_def claudeBinaries_def claudeBinaryRoutes_def

lemma codex_route_ids:
  "map route_id getCodexCliRoutes =
    [''native:codex:exec:workspace-write-skipgit'', ''bash:codex:exec:workspace-write-skipgit'',
     ''wsl:codex:exec:workspace-write-skipgit'', ''wsl-exec:codex:exec:workspace-write-skipgit'',
     ''native:codex:exec:auto-skipgit'', ''bash:codex:exec:auto-skipgit'',
     ''wsl:codex:exec:auto-skipgit'', ''wsl-exec:codex:exec:auto-skipgit'',
     ''native:codex:exec:skipgit'', ''bash:codex:exec:skipgit'',
     ''wsl:codex:exec:skipgit'', ''wsl-exec:codex:exec:skipgit'',
     ''native:codex:exec:plain'', ''bash:codex:exec:plain'',
     ''wsl:codex:exec:plain'', ''wsl-exec:codex:exec:plain'',
     ''native:codex-cli:exec:workspace-write-skipgit'', ''bash:codex-cli:exec:workspace-write-skipgit'',
     ''wsl:codex-cli:exec:workspace-write-skipgit'', ''wsl-exec:codex-cli:exec:workspace-write-skipgit'',
     ''native:codex-cli:exec:auto-skipgit'', ''bash:codex-cli:exec:auto-skipgit'',
     ''wsl:codex-cli:exec:auto-skipgit'', ''wsl-exec:codex-cli:exec:auto-skipgit'',
     ''native:codex-cli:exec:skipgit'', ''bash:codex-cli:exec:skipgit'',
     ''wsl:codex-cli:exec:skipgit'', ''wsl-exec:codex-cli:exec:skipgit'',
     ''native:codex-cli:exec:plain'', ''bash:codex-cli:exec:plain'',
     ''wsl:codex-cli:exec:plain'', ''wsl-exec:codex-cli:exec:plain'']"
  by (simp add: catalog_defs)

lemma claude_route_ids:
  "map route_id getClaudeCliRoutes =
    [''native:claude:p'', ''native:claude:print'', ''bash:claude:p'', ''wsl:claude:p'',
     ''wsl-exec:claude:p'',
     ''native:claude-cli:p'', ''native:claude-cli:print'', ''bash:claude-cli:p'',
     ''wsl:claude-cli:p'', ''wsl-exec:claude-cli:p'']"
  by (simp add: catalog_defs)

lemma codex_ids_distinct: "distinct (map route_id getCodexCliRoutes)"
  unfolding codex_route_ids by simp

lemma claude_ids_distinct: "distinct (map route_id getClaudeCliRoutes)"
  unfolding claude_route_ids by simp

lemma candidates_ids_distinct: "distinct (map route_id (getCliRouteCandidates en k))"
  by (cases k)
     (simp_all add: getCliRouteCandidates_def distinct_map_filter
        codex_ids_distinct claude_ids_distinct)

text \<open>
  Claim C9. For both fixer kinds and both values of the OS-bridge-routes flag, the route
  ids in the list that the Catalog returns are pairwise distinct.
\<close>

theorem C9_route_ids_unique:
  "distinct (map route_id (getCliRouteCandidates enableWslRoutes fixerId))"
  by (cases fixerId)
     (simp_all add: getCliRouteCandidates_def distinct_map_filter
        codex_ids_distinct claude_ids_distinct)

text \<open>
  Claim C7. For each fixer kind, the candidate list with the OS-bridge flag off is the
  list with the flag on, filtered to drop exactly the routes whose transport uses the OS
  bridge: the surviving routes are the same values in the same order. A route uses the
  bridge when its probe launches \<open>wsl\<close>, and on the catalog that is the same as its run
  command being \<open>wsl\<close>, whatever the prompt.
\<close>

theorem C7_bridge_filter:
  "getCliRouteCandidates False fixerId
     = filter (\<lambda>route. \<not> usesOsBridge route) (getCliRouteCandidates True fixerId)
   \<and> map usesOsBridge (getCliRouteCandidates True fixerId)
     = map (\<lambda>route. command (buildRun route prompt) = ''wsl'') (getCliRouteCandidates True fixerId)"
  by (cases fixerId)
     (simp_all add: getCliRouteCandidates_def catalog_defs startsWith_def usesOsBridge_def)

text \<open>
  Claim C2, as the code has it. For the claude-cli kind with bridge routes allowed, the
  Catalog generates five routes for each of the two binary names: the native transport
  with both print-mode spellings (\<open>-p\<close> and \<open>--print\<close>), and the POSIX shell, the
  OS-bridge shell and the OS-bridge exec transports with \<open>-p\<close> only; ten routes in all,
  in this order.
\<close>

theorem C2_claude_routes:
  "map (\<lambda>route. (route_id route, buildRun route prompt)) (getCliRouteCandidates True ClaudeCli) =
    [ (''native:claude:p'', \<lparr> command = ''claude'', args = [''-p'', prompt] \<rparr>),
      (''native:claude:print'', \<lparr> command = ''claude'', args = [''--print'', prompt] \<rparr>),
      (''bash:claude:p'',
         \<lparr> command = ''bash'', args = [''-lc'', ''claude -p '' @ quoteForPosixShell prompt] \<rparr>),
      (''wsl:claude:p'',
         \<lparr> command = ''wsl'', args = [''bash'', ''-lc'', ''claude -p '' @ quoteForPosixShell prompt] \<rparr>),
      (''wsl-exec:claude:p'', \<lparr> command = ''wsl'', args = [''--exec'', ''claude'', ''-p'', prompt] \<rparr>),
      (''native:claude-cli:p'', \<lparr> command = ''claude-cli'', args = [''-p'', prompt] \<rparr>),
      (''native:claude-cli:print'', \<lparr> command = ''claude-cli'', args = [''--print'', prompt] \<rparr>),
      (''bash:claude-cli:p'',
         \<lparr> command = ''bash'', args = [''-lc'', ''claude-cli -p '' @ quoteForPosixShell prompt] \<rparr>),
      (''wsl:claude-cli:p'',
         \<lparr> command = ''wsl'',
           args = [''bash'', ''-lc'', ''claude-cli -p '' @ quoteForPosixShell prompt] \<rparr>),
      (''wsl-exec:claude-cli:p'',
         \<lparr> command = ''wsl'', args = [''--exec'', ''claude-cli'', ''-p'', prompt] \<rparr>) ]"
  by (simp add: getCliRouteCandidates_def catalog_defs)

text \<open>
  The claim as stated fails: one binary gets 5 routes, not 8, the list has 10 routes, not
  16, and the only routes whose run passes \<open>--print\<close> are the two native ones.
\<close>

theorem C2_eight_routes_counterexample:
  "length (claudeBinaryRoutes ''claude'') = 5
   \<and> length (getCliRouteCandidates True ClaudeCli) = 10
   \<and> map route_id
        (filter (\<lambda>route. includes_str (concat (args (buildRun route ''fix''))) ''--print'')
           (getCliRouteCandidates True ClaudeCli))
      = [''native:claude:print'', ''native:claude-cli:print'']"
  by (simp add: getCliRouteCandidates_def catalog_defs startsWith_def quoteForPosixShell_def)

subsection \<open>Preferred route and candidate order\<close>



lemma codex_ids_nonempty: "[] \<notin> set (map route_id getCodexCliRoutes)"
  unfolding codex_route_ids by simp

lemma claude_ids_nonempty: "[] \<notin> set (map route_id getClaudeCliRoutes)"
  unfolding claude_route_ids by simp

lemma candidates_subset:
  "set (getCliRouteCandidates en k)
     \<subseteq> set (if k = CodexCli then getCodexCliRoutes else getClaudeCliRoutes)"
  by (auto simp: getCliRouteCandidates_def)

lemma candidate_id_nonempty:
  assumes "route \<in> set (getCliRouteCandidates en k)"
  shows "route_id route \<noteq> []"
proof (cases k)
  case CodexCli
  with assms candidates_subset[of en k]
  have "route_id route \<in> set (map route_id getCodexCliRoutes)" by auto
  with codex_ids_nonempty show ?thesis by metis
next
  case ClaudeCli
  with assms candidates_subset[of en k]
  have "route_id route \<in> set (map route_id getClaudeCliRoutes)" by auto
  with claude_ids_nonempty show ?thesis by metis
qed



subsection \<open>Process Executor\<close>

lemma childStep_inv:
  assumes "resolved st = None \<longrightarrow> cur_errorCode st = None"
      and "\<forall>r. resolved st = Some r \<longrightarrow> (errorCode r \<noteq> None \<longrightarrow> exitCode r = None \<and> \<not> timedOut r)"
  shows "(resolved (childStep st ev) = None \<longrightarrow> cur_errorCode (childStep st ev) = None)
       \<and> (\<forall>r. resolved (childStep st ev) = Some r \<longrightarrow> (errorCode r \<noteq> None \<longrightarrow> exitCode r = None \<and> \<not> timedOut r))"
  using assms by (cases ev) (auto simp: finalize_def Let_def)

lemma foldl_childStep_inv:
  assumes "resolved st = None \<longrightarrow> cur_errorCode st = None"
      and "\<forall>r. resolved st = Some r \<longrightarrow> (errorCode r \<noteq> None \<longrightarrow> exitCode r = None \<and> \<not> timedOut r)"
  shows "\<forall>r. resolved (foldl childStep st evs) = Some r \<longrightarrow> (errorCode r \<noteq> None \<longrightarrow> exitCode r = None \<and> \<not> timedOut r)"
  using assms
proof (induction evs arbitrary: st)
  case Nil
  then show ?case by simp
next
  case (Cons ev evs)
  have "resolved (childStep st ev) = None \<longrightarrow> cur_errorCode (childStep st ev) = None"
   and "\<forall>r. resolved (childStep st ev) = Some r \<longrightarrow> (errorCode r \<noteq> None \<longrightarrow> exitCode r = None \<and> \<not> timedOut r)"
    using childStep_inv[OF Cons.prems] by blast+
  from Cons.IH[OF this] show ?case by simp
qed

text \<open>
  Claim C3, as the code has it. In every result that \<open>runCommand\<close> resolves with, an OS
  error code excludes the other two conditions: a result with an error code has no exit
  code and is not timed out, and so a timed-out result has no error code. The exit code
  of a timed-out result is whatever \<open>close\<close> reported, and a closed result may carry
  none of the three.
\<close>

theorem C3_error_code_excludes_others: 
  assumes "runCommand outcome = Some r"
  shows "(errorCode r \<noteq> None \<longrightarrow> exitCode r = None \<and> \<not> timedOut r) \<and> (timedOut r \<longrightarrow> errorCode r = None)"
proof (cases outcome)
  case (SpawnThrows code message)
  with assms show ?thesis by (auto simp: runCommand_def)
next
  case (Spawned evs)
  with assms have "resolved (foldl childStep initialRunState evs) = Some r"
    by (simp add: runCommand_def)
  moreover have "\<forall>r. resolved (foldl childStep initialRunState evs) = Some r \<longrightarrow> (errorCode r \<noteq> None \<longrightarrow> exitCode r = None \<and> \<not> timedOut r)"
    by (rule foldl_childStep_inv) (simp_all add: initialRunState_def)
  ultimately show ?thesis by blast
qed

theorem C3_error_code_excludes_others_witness:
  "runCommand (Spawned [StderrData ''x'', ErrorEvent (Some ''ENOENT'') ''spawn codex ENOENT'', CloseEvent (Some 1)])
     = Some \<lparr> exitCode = None, stdout = [], stderr = ''xspawn codex ENOENT'', timedOut = False, errorCode = Some ''ENOENT'' \<rparr>
   \<and> exitCode \<lparr> exitCode = None, stdout = [], stderr = ''xspawn codex ENOENT'', timedOut = False, errorCode = Some ''ENOENT'' \<rparr> = None"
proof -
  have h: "runCommand (Spawned [StderrData ''x'', ErrorEvent (Some ''ENOENT'') ''spawn codex ENOENT'', CloseEvent (Some 1)])
     = Some \<lparr> exitCode = None, stdout = [], stderr = ''xspawn codex ENOENT'', timedOut = False, errorCode = Some ''ENOENT'' \<rparr>"
    by (simp add: runCommand_def initialRunState_def finalize_def appendOutput_def MAX_PROCESS_OUTPUT_CHARS_def)
  from C3_error_code_excludes_others[OF h] show ?thesis using h by simp
qed

text \<open>
  The claim as stated fails: a child that exits with a code after the timer fired gives a
  result that is timed out and has an exit code, and a child closed with a null exit code
  before the timer gives a result with none of the three.
\<close>

theorem C3_exactly_one_counterexample:
  "runCommand (Spawned [TimerFired, CloseEvent (Some 143)])
     = Some \<lparr> exitCode = Some 143, stdout = [], stderr = [], timedOut = True, errorCode = None \<rparr>
   \<and> runCommand (Spawned [CloseEvent None])
     = Some \<lparr> exitCode = None, stdout = [], stderr = [], timedOut = False, errorCode = None \<rparr>"
  by (simp add: runCommand_def initialRunState_def finalize_def)








subsection \<open>Host command availability\<close>

lemma calls_keep: "cache cmd \<noteq> None \<Longrightarrow> isCommandAvailableCalls calls cache cmd \<noteq> None"
proof (induction calls arbitrary: cache)
  case Nil
  then show ?case by simp
next
  case (Cons c calls)
  obtain hc x where c: "c = (hc, x)" by (cases c)
  have "snd (isCommandAvailable hc x cache) cmd \<noteq> None"
    using Cons.prems by (auto simp: isCommandAvailable_def Let_def)
  then have "isCommandAvailableCalls calls (snd (isCommandAvailable hc x cache)) cmd \<noteq> None"
    by (rule Cons.IH)
  then show ?case by (simp add: c)
qed

text \<open>
  Claim C10. \<open>isCommandAvailable\<close> caches only positive answers. Once a call for a name
  has returned true, every later call for it, after any other calls and whatever the
  host's command list has become, returns true and leaves the cache as it is. A false
  answer leaves the cache unchanged, so the next call for that name looks the name up in
  the host's list of that moment.
\<close>

theorem C10_positive_answers_cached:
  "(fst (isCommandAvailable hc cmd cache) \<longrightarrow>
      (\<forall>calls hc'. isCommandAvailable hc' cmd (isCommandAvailableCalls calls (snd (isCommandAvailable hc cmd cache)))
          = (True, isCommandAvailableCalls calls (snd (isCommandAvailable hc cmd cache)))))
   \<and> (\<not> fst (isCommandAvailable hc cmd cache) \<longrightarrow>
        snd (isCommandAvailable hc cmd cache) = cache
      \<and> (\<forall>hc'. fst (isCommandAvailable hc' cmd cache) = (cmd \<in> set hc')))"
proof (intro conjI impI allI)
  fix calls hc'
  assume "fst (isCommandAvailable hc cmd cache)"
  then have "snd (isCommandAvailable hc cmd cache) cmd \<noteq> None"
    by (auto simp: isCommandAvailable_def Let_def split: if_splits)
  then have "isCommandAvailableCalls calls (snd (isCommandAvailable hc cmd cache)) cmd \<noteq> None"
    by (rule calls_keep)
  then show "isCommandAvailable hc' cmd (isCommandAvailableCalls calls (snd (isCommandAvailable hc cmd cache)))
          = (True, isCommandAvailableCalls calls (snd (isCommandAvailable hc cmd cache)))"
    by (simp add: isCommandAvailable_def)
next
  assume "\<not> fst (isCommandAvailable hc cmd cache)"
  then show "snd (isCommandAvailable hc cmd cache) = cache"
    by (auto simp: isCommandAvailable_def Let_def split: if_splits)
next
  fix hc'
  assume "\<not> fst (isCommandAvailable hc cmd cache)"
  then have "cache cmd = None"
    by (auto simp: isCommandAvailable_def Let_def split: if_splits)
  then show "fst (isCommandAvailable hc' cmd cache) = (cmd \<in> set hc')"
    by (simp add: isCommandAvailable_def Let_def)
qed

theorem C10_positive_answers_cached_witness:
  "fst (isCommandAvailable [''chatgpt.implementTodo''] ''chatgpt.implementTodo'' Map.empty)
   \<and> fst (isCommandAvailable [] ''chatgpt.implementTodo''
        (isCommandAvailableCalls [([], ''claude-vscode.editor.open'')]
           (snd (isCommandAvailable [''chatgpt.implementTodo''] ''chatgpt.implementTodo'' Map.empty))))
   \<and> \<not> fst (isCommandAvailable [] ''claude-vscode.editor.open'' Map.empty)
   \<and> fst (isCommandAvailable [''claude-vscode.editor.open''] ''claude-vscode.editor.open'' Map.empty)"
proof -
  have a: "fst (isCommandAvailable [''chatgpt.implementTodo''] ''chatgpt.implementTodo'' Map.empty)"
    by (simp add: isCommandAvailable_def)
  have b: "\<not> fst (isCommandAvailable [] ''claude-vscode.editor.open'' Map.empty)"
    by (simp add: isCommandAvailable_def)
  have "isCommandAvailable [] ''chatgpt.implementTodo''
        (isCommandAvailableCalls [([], ''claude-vscode.editor.open'')]
           (snd (isCommandAvailable [''chatgpt.implementTodo''] ''chatgpt.implementTodo'' Map.empty)))
      = (True, isCommandAvailableCalls [([], ''claude-vscode.editor.open'')]
           (snd (isCommandAvailable [''chatgpt.implementTodo''] ''chatgpt.implementTodo'' Map.empty)))"
    using C10_positive_answers_cached[of "[''chatgpt.implementTodo'']" "''chatgpt.implementTodo''" Map.empty] a by blast
  then have c: "fst (isCommandAvailable [] ''chatgpt.implementTodo''
        (isCommandAvailableCalls [([], ''claude-vscode.editor.open'')]
           (snd (isCommandAvailable [''chatgpt.implementTodo''] ''chatgpt.implementTodo'' Map.empty))))"
    by (simp only: fst_conv)
  have "fst (isCommandAvailable [''claude-vscode.editor.open''] ''claude-vscode.editor.open'' Map.empty)
      = (''claude-vscode.editor.open'' \<in> set [''claude-vscode.editor.open''])"
    using C10_positive_answers_cached[of "[]" "''claude-vscode.editor.open''" Map.empty] b by blast
  then have d: "fst (isCommandAvailable [''claude-vscode.editor.open''] ''claude-vscode.editor.open'' Map.empty)"
    by simp
  show ?thesis using a b c d by simp
qed

subsection \<open>Fixer Runner: one pass and the loop\<close>

lemma sameVerdicts_refl: "sameVerdicts w w"
  by (simp add: sameVerdicts_def)

lemma sameVerdicts_trans: "sameVerdicts w w1 \<Longrightarrow> sameVerdicts w1 w2 \<Longrightarrow> sameVerdicts w w2"
  by (simp add: sameVerdicts_def)

lemma awaitRunCommand_frame:
  "awaitRunCommand exec spec cwd t w = (res, w1) \<Longrightarrow> sameVerdicts w w1"
  by (auto simp: awaitRunCommand_def sameVerdicts_def)

lemma probeRoute_frame:
  "probeRoute exec route cwd w = (ok, w1) \<Longrightarrow> sameVerdicts w w1"
  by (auto simp: probeRoute_def awaitRunCommand_def sameVerdicts_def Let_def split: option.splits)

lemma classify_simps:
  "(classify res = SandboxNotice) = isReadOnlySandboxNotice res"
  "(classify res = Success) = (\<not> isReadOnlySandboxNotice res \<and> isProcessSuccess res)"
  "(classify res = InvocationFailure) = (\<not> isReadOnlySandboxNotice res \<and> \<not> isProcessSuccess res \<and> isInvocationFailure res)"
  "(classify res = HardFailure) = (\<not> isReadOnlySandboxNotice res \<and> \<not> isProcessSuccess res \<and> \<not> isInvocationFailure res)"
  by (auto simp: classify_def)

lemma loopBody_probe_failed:
  assumes "route_id route \<noteq> b" and "probeRoute exec route cwd (world ls) = (False, w1)"
  shows "loopBody exec k cwd p b route ls
           = Continue (ls\<lparr>world := w1, trace := trace ls @ [Probed (route_id route) False]\<rparr>)"
  using assms by (simp add: loopBody_def)

lemma loopBody_run:
  assumes "route_id route = b \<and> w1 = world ls \<or> route_id route \<noteq> b \<and> probeRoute exec route cwd (world ls) = (True, w1)"
      and "awaitRunCommand exec (buildRun route p) cwd CLI_RUN_TIMEOUT_MS w1 = (res, w2)"
  shows "loopBody exec k cwd p b route ls =
     (case classify res of
        SandboxNotice \<Rightarrow>
          Continue (ls\<lparr>world := w2, trace := trace ls @ runBlock b route res,
                       sawInvocationFailureOnly := False,
                       failures := failures ls @ [SandboxFailure (display route)]\<rparr>)
      | Success \<Rightarrow>
          Return route (ls\<lparr>world := setCachedCliRoute k (Some route) w2,
                           trace := trace ls @ runBlock b route res\<rparr>)
      | InvocationFailure \<Rightarrow>
          Continue (ls\<lparr>world := w2, trace := trace ls @ runBlock b route res,
                       failures := failures ls @ [ProcessFailure (display route) res]\<rparr>)
      | HardFailure \<Rightarrow>
          Break (ls\<lparr>world := w2, trace := trace ls @ runBlock b route res,
                    failures := failures ls @ [ProcessFailure (display route) res],
                    sawInvocationFailureOnly := False\<rparr>))"
  using assms
  by (auto simp: loopBody_def runBlock_def classify_def Let_def)

lemma loopBody_exhaust:
  obtains (skipped) w1 where "route_id route \<noteq> b"
      and "probeRoute exec route cwd (world ls) = (False, w1)"
  | (ran) w1 res w2 where
      "route_id route = b \<and> w1 = world ls
        \<or> route_id route \<noteq> b \<and> probeRoute exec route cwd (world ls) = (True, w1)"
      and "awaitRunCommand exec (buildRun route p) cwd CLI_RUN_TIMEOUT_MS w1 = (res, w2)"
      and "sameVerdicts (world ls) w2"
proof (cases "route_id route = b")
  case True
  obtain res w2 where run: "awaitRunCommand exec (buildRun route p) cwd CLI_RUN_TIMEOUT_MS (world ls) = (res, w2)"
    by (cases "awaitRunCommand exec (buildRun route p) cwd CLI_RUN_TIMEOUT_MS (world ls)")
  from awaitRunCommand_frame[OF run] have "sameVerdicts (world ls) w2" .
  with True run show ?thesis by (intro ran[of "world ls" res w2]) simp_all
next
  case False
  obtain ok w1 where pr: "probeRoute exec route cwd (world ls) = (ok, w1)"
    by (cases "probeRoute exec route cwd (world ls)")
  show ?thesis
  proof (cases ok)
    case True
    obtain res w2 where run: "awaitRunCommand exec (buildRun route p) cwd CLI_RUN_TIMEOUT_MS w1 = (res, w2)"
      by (cases "awaitRunCommand exec (buildRun route p) cwd CLI_RUN_TIMEOUT_MS w1")
    from probeRoute_frame[OF pr] awaitRunCommand_frame[OF run]
    have "sameVerdicts (world ls) w2" by (rule sameVerdicts_trans)
    with False True pr run show ?thesis by (intro ran[of w1 res w2]) simp_all
  next
    case False
    with \<open>route_id route \<noteq> b\<close> pr show ?thesis by (intro skipped[of w1]) simp_all
  qed
qed

lemma runLoop_cases [consumes 1, case_names Nil Skip Sandbox Invocation Hard Success]:
  assumes run: "runLoop exec k cwd p b routes ls = (r, ls')"
    and Nil: "\<And>ls. P [] ls None ls"
    and Skip: "\<And>route routes ls w1 r ls'.
        route_id route \<noteq> b \<Longrightarrow> sameVerdicts (world ls) w1 \<Longrightarrow>
        P routes (ls\<lparr>world := w1, trace := trace ls @ [Probed (route_id route) False]\<rparr>) r ls' \<Longrightarrow>
        P (route # routes) ls r ls'"
    and Sandbox: "\<And>route routes ls w2 res r ls'.
        sameVerdicts (world ls) w2 \<Longrightarrow> classify res = SandboxNotice \<Longrightarrow>
        P routes (ls\<lparr>world := w2, trace := trace ls @ runBlock b route res,
                     sawInvocationFailureOnly := False,
                     failures := failures ls @ [SandboxFailure (display route)]\<rparr>) r ls' \<Longrightarrow>
        P (route # routes) ls r ls'"
    and Invocation: "\<And>route routes ls w2 res r ls'.
        sameVerdicts (world ls) w2 \<Longrightarrow> classify res = InvocationFailure \<Longrightarrow>
        P routes (ls\<lparr>world := w2, trace := trace ls @ runBlock b route res,
                     failures := failures ls @ [ProcessFailure (display route) res]\<rparr>) r ls' \<Longrightarrow>
        P (route # routes) ls r ls'"
    and Hard: "\<And>route routes ls w2 res.
        sameVerdicts (world ls) w2 \<Longrightarrow> classify res = HardFailure \<Longrightarrow>
        P (route # routes) ls None
          (ls\<lparr>world := w2, trace := trace ls @ runBlock b route res,
              failures := failures ls @ [ProcessFailure (display route) res],
              sawInvocationFailureOnly := False\<rparr>)"
    and Success: "\<And>route routes ls w2 res.
        sameVerdicts (world ls) w2 \<Longrightarrow> classify res = Success \<Longrightarrow>
        P (route # routes) ls (Some route)
          (ls\<lparr>world := setCachedCliRoute k (Some route) w2,
              trace := trace ls @ runBlock b route res\<rparr>)"
  shows "P routes ls r ls'"
  using run
proof (induction routes arbitrary: ls)
  case Nil
  then show ?case using assms(2) by simp
next
  case (Cons route routes)
  show ?case
  proof (cases rule: loopBody_exhaust[where route=route and b=b and exec=exec and cwd=cwd and ls=ls and p=p])
    case (skipped w1)
    let ?ls1 = "ls\<lparr>world := w1, trace := trace ls @ [Probed (route_id route) False]\<rparr>"
    from skipped have body: "loopBody exec k cwd p b route ls = Continue ?ls1"
      by (rule loopBody_probe_failed)
    with Cons.prems have "runLoop exec k cwd p b routes ?ls1 = (r, ls')" by simp
    then have "P routes ?ls1 r ls'" by (rule Cons.IH)
    moreover from skipped(2) have "sameVerdicts (world ls) w1" by (rule probeRoute_frame)
    ultimately show ?thesis using skipped(1) by (intro Skip)
  next
    case (ran w1 res w2)
    note body = loopBody_run[OF ran(1) ran(2), of k]
    show ?thesis
    proof (cases "classify res")
      case SandboxNotice
      let ?ls1 = "ls\<lparr>world := w2, trace := trace ls @ runBlock b route res,
                     sawInvocationFailureOnly := False,
                     failures := failures ls @ [SandboxFailure (display route)]\<rparr>"
      from body SandboxNotice Cons.prems have "runLoop exec k cwd p b routes ?ls1 = (r, ls')" by simp
      then have "P routes ?ls1 r ls'" by (rule Cons.IH)
      with ran(3) SandboxNotice show ?thesis by (intro Sandbox)
    next
      case Success
      from body Success Cons.prems
      have "r = Some route" and "ls' = ls\<lparr>world := setCachedCliRoute k (Some route) w2,
              trace := trace ls @ runBlock b route res\<rparr>" by auto
      with ran(3) Success show ?thesis using assms(7)[of ls w2 res route routes] by simp
    next
      case InvocationFailure
      let ?ls1 = "ls\<lparr>world := w2, trace := trace ls @ runBlock b route res,
                     failures := failures ls @ [ProcessFailure (display route) res]\<rparr>"
      from body InvocationFailure Cons.prems have "runLoop exec k cwd p b routes ?ls1 = (r, ls')" by simp
      then have "P routes ?ls1 r ls'" by (rule Cons.IH)
      with ran(3) InvocationFailure show ?thesis by (intro Invocation)
    next
      case HardFailure
      from body HardFailure Cons.prems
      have "r = None" and "ls' = ls\<lparr>world := w2, trace := trace ls @ runBlock b route res,
              failures := failures ls @ [ProcessFailure (display route) res],
              sawInvocationFailureOnly := False\<rparr>" by auto
      with ran(3) HardFailure show ?thesis using assms(6)[of ls w2 res route routes] by simp
    qed
  qed
qed

lemma traceBlocks_runBlock:
  "traceBlocks b (runBlock b route res @ tr) = traceBlocks b tr"
  by (simp add: runBlock_def)

lemma visited_runBlock:
  "visited (runBlock b route res @ tr) = route_id route # visited tr"
  by (simp add: runBlock_def)

lemma allRuns_append:
  "allRunsInvocationFailures (xs @ ys) = (allRunsInvocationFailures xs \<and> allRunsInvocationFailures ys)"
  by (simp add: allRunsInvocationFailures_def)

lemma allRuns_runBlock:
  "allRunsInvocationFailures (runBlock b route res) = (classify res = InvocationFailure)"
  by (simp add: allRunsInvocationFailures_def runBlock_def isInvocationFailureEvent_def)

lemma allRuns_probe:
  "allRunsInvocationFailures (Probed i ok # tr) = allRunsInvocationFailures tr"
  by (simp add: allRunsInvocationFailures_def isInvocationFailureEvent_def)

lemma Ran_in_runBlock:
  "Ran i r \<in> set (runBlock b route res) = (i = route_id route \<and> r = res)"
  by (auto simp: runBlock_def)

text \<open>The log grows by a well-formed sequence of blocks that visits a prefix of the routes.\<close>

lemma runLoop_log:
  assumes "runLoop exec k cwd p b routes ls = (r, ls')"
  shows "\<exists>new. trace ls' = trace ls @ new \<and> traceBlocks b new
           \<and> visited new = take (length (visited new)) (map route_id routes)"
  using assms
proof (induction rule: runLoop_cases)
  case (Nil ls)
  then show ?case by simp
next
  case (Skip route routes ls w1 r ls')
  then obtain new where "trace ls' = trace ls @ Probed (route_id route) False # new"
    and "traceBlocks b new" and "visited new = take (length (visited new)) (map route_id routes)"
    by auto
  with Skip(1) show ?case
    by (intro exI[of _ "Probed (route_id route) False # new"]) simp
next
  case (Sandbox route routes ls w2 res r ls')
  then obtain new where "trace ls' = trace ls @ runBlock b route res @ new"
    and "traceBlocks b new" and "visited new = take (length (visited new)) (map route_id routes)"
    by auto
  then show ?case
    by (intro exI[of _ "runBlock b route res @ new"]) (simp add: traceBlocks_runBlock visited_runBlock)
next
  case (Invocation route routes ls w2 res r ls')
  then obtain new where "trace ls' = trace ls @ runBlock b route res @ new"
    and "traceBlocks b new" and "visited new = take (length (visited new)) (map route_id routes)"
    by auto
  then show ?case
    by (intro exI[of _ "runBlock b route res @ new"]) (simp add: traceBlocks_runBlock visited_runBlock)
next
  case (Hard route routes ls w2 res)
  show ?case
    using traceBlocks_runBlock[of b route res "[]"] visited_runBlock[of b route res "[]"]
    by (intro exI[of _ "runBlock b route res"]) simp
next
  case (Success route routes ls w2 res)
  show ?case
    using traceBlocks_runBlock[of b route res "[]"] visited_runBlock[of b route res "[]"]
    by (intro exI[of _ "runBlock b route res"]) simp
qed

text \<open>A loop that ends without a success leaves the verdicts alone; a success writes its route.\<close>

lemma runLoop_verdicts:
  assumes "runLoop exec k cwd p b routes ls = (r, ls')"
  shows "case r of
           None \<Rightarrow> sameVerdicts (world ls) (world ls')
         | Some route \<Rightarrow> route \<in> set routes
             \<and> (\<exists>w2. sameVerdicts (world ls) w2 \<and> world ls' = setCachedCliRoute k (Some route) w2)"
  using assms
proof (induction rule: runLoop_cases)
  case (Nil ls)
  then show ?case by (simp add: sameVerdicts_refl)
next
  case (Skip route routes ls w1 r ls')
  then show ?case by (cases r) (auto intro: sameVerdicts_trans)
next
  case (Sandbox route routes ls w2 res r ls')
  then show ?case by (cases r) (auto intro: sameVerdicts_trans)
next
  case (Invocation route routes ls w2 res r ls')
  then show ?case by (cases r) (auto intro: sameVerdicts_trans)
next
  case (Hard route routes ls w2 res)
  then show ?case by simp
next
  case (Success route routes ls w2 res)
  then show ?case by auto
qed

text \<open>The flag at the end of the loop, and what a success means for the log.\<close>

lemma runLoop_flag:
  assumes "runLoop exec k cwd p b routes ls = (r, ls')"
  shows "\<exists>new. trace ls' = trace ls @ new
           \<and> (r = None \<longrightarrow> sawInvocationFailureOnly ls'
                           = (sawInvocationFailureOnly ls \<and> allRunsInvocationFailures new))
           \<and> (r \<noteq> None \<longrightarrow> \<not> allRunsInvocationFailures new)"
  using assms
proof (induction rule: runLoop_cases)
  case (Nil ls)
  then show ?case by (simp add: allRunsInvocationFailures_def)
next
  case (Skip route routes ls w1 r ls')
  then obtain new where n: "trace ls' = trace ls @ [Probed (route_id route) False] @ new"
    and c: "r = None \<longrightarrow> sawInvocationFailureOnly ls'
                           = (sawInvocationFailureOnly ls \<and> allRunsInvocationFailures new)"
           "r \<noteq> None \<longrightarrow> \<not> allRunsInvocationFailures new"
    by auto
  from c show ?case
    by (intro exI[of _ "[Probed (route_id route) False] @ new"] conjI n)
       (simp_all add: allRuns_append allRuns_probe)
next
  case (Sandbox route routes ls w2 res r ls')
  then obtain new where n: "trace ls' = trace ls @ runBlock b route res @ new"
    and c: "r = None \<longrightarrow> sawInvocationFailureOnly ls' = False"
           "r \<noteq> None \<longrightarrow> \<not> allRunsInvocationFailures new"
    by auto
  from c Sandbox(2) show ?case
    by (intro exI[of _ "runBlock b route res @ new"] conjI n)
       (simp_all add: allRuns_append allRuns_runBlock)
next
  case (Invocation route routes ls w2 res r ls')
  then obtain new where n: "trace ls' = trace ls @ runBlock b route res @ new"
    and c: "r = None \<longrightarrow> sawInvocationFailureOnly ls'
                           = (sawInvocationFailureOnly ls \<and> allRunsInvocationFailures new)"
           "r \<noteq> None \<longrightarrow> \<not> allRunsInvocationFailures new"
    by auto
  from c Invocation(2) show ?case
    by (intro exI[of _ "runBlock b route res @ new"] conjI n)
       (simp_all add: allRuns_append allRuns_runBlock)
next
  case (Hard route routes ls w2 res)
  then show ?case
    by (intro exI[of _ "runBlock b route res"]) (simp add: allRuns_runBlock)
next
  case (Success route routes ls w2 res)
  then show ?case
    by (intro exI[of _ "runBlock b route res"]) (simp add: allRuns_runBlock)
qed

lemma runBlock_snoc: "\<exists>pre. runBlock b route res = pre @ [Ran (route_id route) res]"
  by (cases "route_id route = b") (simp_all add: runBlock_def)

text \<open>A sandbox notice in the log has its entry in the failures.\<close>

lemma runLoop_sandbox_recorded:
  assumes "runLoop exec k cwd p b routes ls = (r, ls')"
  shows "\<exists>new. trace ls' = trace ls @ new \<and> set (failures ls) \<subseteq> set (failures ls')
           \<and> (\<forall>i res. Ran i res \<in> set new \<and> isReadOnlySandboxNotice res \<longrightarrow>
                 (\<exists>route \<in> set routes. route_id route = i
                    \<and> SandboxFailure (display route) \<in> set (failures ls')))"
  using assms
proof (induction rule: runLoop_cases)
  case (Nil ls)
  then show ?case by simp
next
  case (Skip route routes ls w1 r ls')
  then obtain new where n: "trace ls' = trace ls @ Probed (route_id route) False # new"
    and f: "set (failures ls) \<subseteq> set (failures ls')"
    and c: "\<forall>i res. Ran i res \<in> set new \<and> isReadOnlySandboxNotice res \<longrightarrow>
                 (\<exists>route \<in> set routes. route_id route = i
                    \<and> SandboxFailure (display route) \<in> set (failures ls'))"
    by auto
  from f c show ?case
    by (intro exI[of _ "Probed (route_id route) False # new"] conjI n) auto
next
  case (Sandbox route routes ls w2 res r ls')
  then obtain new where n: "trace ls' = trace ls @ runBlock b route res @ new"
    and f: "set (failures ls) \<subseteq> set (failures ls')"
           "SandboxFailure (display route) \<in> set (failures ls')"
    and c: "\<forall>i res. Ran i res \<in> set new \<and> isReadOnlySandboxNotice res \<longrightarrow>
                 (\<exists>route \<in> set routes. route_id route = i
                    \<and> SandboxFailure (display route) \<in> set (failures ls'))"
    by auto
  from f c show ?case
    by (intro exI[of _ "runBlock b route res @ new"] conjI n) (auto simp: Ran_in_runBlock)
next
  case (Invocation route routes ls w2 res r ls')
  then obtain new where n: "trace ls' = trace ls @ runBlock b route res @ new"
    and f: "set (failures ls) \<subseteq> set (failures ls')"
    and c: "\<forall>i res. Ran i res \<in> set new \<and> isReadOnlySandboxNotice res \<longrightarrow>
                 (\<exists>route \<in> set routes. route_id route = i
                    \<and> SandboxFailure (display route) \<in> set (failures ls'))"
    by auto
  from f c Invocation(2) show ?case
    by (intro exI[of _ "runBlock b route res @ new"] conjI n)
       (auto simp: Ran_in_runBlock classify_simps)
next
  case (Hard route routes ls w2 res)
  then show ?case
    by (intro exI[of _ "runBlock b route res"]) (auto simp: Ran_in_runBlock classify_simps)
next
  case (Success route routes ls w2 res)
  then show ?case
    by (intro exI[of _ "runBlock b route res"]) (auto simp: Ran_in_runBlock classify_simps)
qed

lemma stop_extend:
  assumes "visited new = ids
            \<or> (\<exists>pre i res. new = pre @ [Ran i res]
                  \<and> (classify res = HardFailure \<or> classify res = Success))"
      and "visited (blk @ new) = j # visited new"
  shows "visited (blk @ new) = j # ids
            \<or> (\<exists>pre i res. blk @ new = pre @ [Ran i res]
                  \<and> (classify res = HardFailure \<or> classify res = Success))"
  using assms(1)
proof
  assume "visited new = ids"
  with assms(2) show ?thesis by simp
next
  assume "\<exists>pre i res. new = pre @ [Ran i res]
                  \<and> (classify res = HardFailure \<or> classify res = Success)"
  then obtain pre i res where n: "new = pre @ [Ran i res]"
    and c: "classify res = HardFailure \<or> classify res = Success" by blast
  from n have "blk @ new = (blk @ pre) @ [Ran i res]" by simp
  with c show ?thesis by blast
qed

text \<open>The loop stops before the last route only after a run classified as hard failure or
  success.\<close>

lemma runLoop_stop:
  assumes "runLoop exec k cwd p b routes ls = (r, ls')"
  shows "\<exists>new. trace ls' = trace ls @ new
           \<and> (visited new = map route_id routes
              \<or> (\<exists>pre i res. new = pre @ [Ran i res]
                    \<and> (classify res = HardFailure \<or> classify res = Success)))"
  using assms
proof (induction rule: runLoop_cases)
  case (Nil ls)
  then show ?case by simp
next
  case (Skip route routes ls w1 r ls')
  then obtain new where n: "trace ls' = trace ls @ [Probed (route_id route) False] @ new"
    and c: "visited new = map route_id routes
              \<or> (\<exists>pre i res. new = pre @ [Ran i res]
                    \<and> (classify res = HardFailure \<or> classify res = Success))"
    by auto
  have "visited ([Probed (route_id route) False] @ new) = route_id route # visited new" by simp
  from stop_extend[OF c this] n show ?case by auto
next
  case (Sandbox route routes ls w2 res r ls')
  then obtain new where n: "trace ls' = trace ls @ runBlock b route res @ new"
    and c: "visited new = map route_id routes
              \<or> (\<exists>pre i res. new = pre @ [Ran i res]
                    \<and> (classify res = HardFailure \<or> classify res = Success))"
    by auto
  from stop_extend[OF c visited_runBlock] n show ?case by auto
next
  case (Invocation route routes ls w2 res r ls')
  then obtain new where n: "trace ls' = trace ls @ runBlock b route res @ new"
    and c: "visited new = map route_id routes
              \<or> (\<exists>pre i res. new = pre @ [Ran i res]
                    \<and> (classify res = HardFailure \<or> classify res = Success))"
    by auto
  from stop_extend[OF c visited_runBlock] n show ?case by auto
next
  case (Hard route routes ls w2 res)
  obtain pre where "runBlock b route res = pre @ [Ran (route_id route) res]"
    using runBlock_snoc by blast
  with Hard show ?case
    by (intro exI[of _ "runBlock b route res"]) auto
next
  case (Success route routes ls w2 res)
  obtain pre where "runBlock b route res = pre @ [Ran (route_id route) res]"
    using runBlock_snoc by blast
  with Success show ?case
    by (intro exI[of _ "runBlock b route res"]) auto
qed

subsection \<open>Route Resolver and the runner's candidate order\<close>

lemma setCachedCliRoute_cache: "cliRouteCache (setCachedCliRoute k r w) k = Some r"
  by (simp add: setCachedCliRoute_def Let_def split: option.splits)

lemma setCachedCliRoute_cfg:
  "cfgEnableWslRoutes (setCachedCliRoute k r w) = cfgEnableWslRoutes w"
  by (simp add: setCachedCliRoute_def Let_def split: option.splits)

lemma setCachedCliRoute_cleared:
  "getPersistedRouteId (setCachedCliRoute k None w) k = None"
  by (simp add: setCachedCliRoute_def getPersistedRouteId_def Let_def)

lemma order_subset: "set (orderRoutesWithPreferred routes pref) \<subseteq> set routes"
  by (auto simp: orderRoutesWithPreferred_def find_Some_iff split: option.splits)

lemma discoverLoop_result:
  assumes "discoverLoop exec k cwd routes w = (r, w1)"
  shows "cfgEnableWslRoutes w1 = cfgEnableWslRoutes w
       \<and> (case r of
            None \<Rightarrow> cliRouteCache w1 k = Some None
          | Some route \<Rightarrow> route \<in> set routes \<and> cliRouteCache w1 k = Some (Some route))"
  using assms
proof (induction routes arbitrary: w)
  case Nil
  then show ?case by (auto simp: setCachedCliRoute_cache setCachedCliRoute_cfg)
next
  case (Cons route routes)
  obtain ok w2 where pr: "probeRoute exec route cwd w = (ok, w2)"
    by (cases "probeRoute exec route cwd w")
  from probeRoute_frame[OF pr] have cfg: "cfgEnableWslRoutes w2 = cfgEnableWslRoutes w"
    by (simp add: sameVerdicts_def)
  show ?case
  proof (cases ok)
    case True
    with pr Cons.prems cfg show ?thesis
      by (auto simp: setCachedCliRoute_cache setCachedCliRoute_cfg)
  next
    case False
    with pr Cons.prems have "discoverLoop exec k cwd routes w2 = (r, w1)" by simp
    from Cons.IH[OF this] cfg show ?thesis by (auto split: option.splits)
  qed
qed

lemma getCliRoute_known_bad:
  "cliRouteCache w k = Some None \<Longrightarrow> getCliRoute exec probeCwd k False w = (None, w)"
  by (simp add: getCliRoute_def)

lemma isRouteAvailable_iff:
  "isRouteAvailable en k i = (i \<in> route_id ` set (getCliRouteCandidates en k))"
  by (auto simp: isRouteAvailable_def list_ex_iff)

lemma discoverCliRoute_result:
  assumes "discoverCliRoute exec probeCwd k w = (r, w1)"
  shows "cfgEnableWslRoutes w1 = cfgEnableWslRoutes w
       \<and> (case r of
            None \<Rightarrow> cliRouteCache w1 k = Some None
          | Some route \<Rightarrow> route \<in> set (getCliRouteCandidates (cfgEnableWslRoutes w) k)
               \<and> cliRouteCache w1 k = Some (Some route))"
proof -
  from assms have "discoverLoop exec k probeCwd
       (discoveryRoutes (cfgEnableWslRoutes w) k (getPersistedRouteId w k)) w = (r, w1)"
    by (simp add: discoverCliRoute_def)
  from discoverLoop_result[OF this] order_subset show ?thesis
    by (auto simp: discoveryRoutes_def split: option.splits)
qed

lemma getCliRoute_result:
  assumes "getCliRoute exec probeCwd k False w = (r, w1)"
  shows "cfgEnableWslRoutes w1 = cfgEnableWslRoutes w
       \<and> (case r of
            None \<Rightarrow> cliRouteCache w1 k = Some None
          | Some base \<Rightarrow> isRouteAvailable (cfgEnableWslRoutes w1) k (route_id base)
               \<and> cliRouteCache w1 k = Some (Some base))"
proof (cases "cliRouteCache w k")
  case None
  with assms have "discoverCliRoute exec probeCwd k w = (r, w1)"
    by (simp add: getCliRoute_def)
  from discoverCliRoute_result[OF this] show ?thesis
    by (auto simp: isRouteAvailable_iff split: option.splits)
next
  case (Some entry)
  show ?thesis
  proof (cases entry)
    case None
    with Some assms show ?thesis by (auto simp: getCliRoute_def)
  next
    case (Some cached)
    show ?thesis
    proof (cases "isRouteAvailable (cfgEnableWslRoutes w) k (route_id cached)")
      case True
      with Some \<open>cliRouteCache w k = Some entry\<close> assms show ?thesis
        by (auto simp: getCliRoute_def)
    next
      case False
      with Some \<open>cliRouteCache w k = Some entry\<close> assms
      have "discoverCliRoute exec probeCwd k (setCachedCliRoute k None w) = (r, w1)"
        by (simp add: getCliRoute_def)
      from discoverCliRoute_result[OF this] show ?thesis
        by (auto simp: isRouteAvailable_iff setCachedCliRoute_cfg split: option.splits)
    qed
  qed
qed

lemma find_by_id:
  assumes "i \<in> route_id ` set routes"
  shows "\<exists>first. find (\<lambda>route. route_id route = i) routes = Some first
             \<and> first \<in> set routes \<and> route_id first = i"
proof (cases "find (\<lambda>route. route_id route = i) routes")
  case None
  with assms show ?thesis by (auto simp: find_None_iff)
next
  case (Some first)
  then show ?thesis by (auto simp: find_Some_iff)
qed

lemma runOrder_shape:
  assumes "isRouteAvailable (cfgEnableWslRoutes w1) k (route_id base)"
  shows "\<exists>first. find (\<lambda>route. route_id route = route_id base)
                    (getCliRouteCandidates (cfgEnableWslRoutes w1) k) = Some first
           \<and> route_id first = route_id base
           \<and> runOrder w1 k base
               = first # filter (\<lambda>route. route_id route \<noteq> route_id base)
                           (getCliRouteCandidates (cfgEnableWslRoutes w1) k)"
proof -
  let ?cands = "getCliRouteCandidates (cfgEnableWslRoutes w1) k"
  from assms have "route_id base \<in> route_id ` set ?cands" by (simp add: isRouteAvailable_iff)
  from find_by_id[OF this] obtain first where
    f: "find (\<lambda>route. route_id route = route_id base) ?cands = Some first"
    and m: "first \<in> set ?cands" and i: "route_id first = route_id base" by blast
  from candidate_id_nonempty[OF m] i have "route_id base \<noteq> []" by simp
  with f i show ?thesis by (simp add: runOrder_def orderRoutesWithPreferred_def)
qed

lemma runLoop_base_first:
  assumes run: "runLoop exec k cwd p b (first # rest) ls = (r, ls')" and b: "route_id first = b"
  shows "\<exists>res more. trace ls' = trace ls @ Ran b res # more"
proof (cases rule: loopBody_exhaust[where route=first and b=b and exec=exec and cwd=cwd and ls=ls and p=p])
  case (skipped w1)
  with b show ?thesis by simp
next
  case (ran w1 res w2)
  note body = loopBody_run[OF ran(1) ran(2), of k]
  from b have blk: "runBlock b first res = [Ran b res]" by (simp add: runBlock_def)
  show ?thesis
  proof (cases "classify res")
    case SandboxNotice
    let ?ls1 = "ls\<lparr>world := w2, trace := trace ls @ runBlock b first res,
                     sawInvocationFailureOnly := False,
                     failures := failures ls @ [SandboxFailure (display first)]\<rparr>"
    from body SandboxNotice run have "runLoop exec k cwd p b rest ?ls1 = (r, ls')" by simp
    from runLoop_log[OF this] blk show ?thesis by auto
  next
    case Success
    with body run blk show ?thesis by auto
  next
    case InvocationFailure
    let ?ls1 = "ls\<lparr>world := w2, trace := trace ls @ runBlock b first res,
                     failures := failures ls @ [ProcessFailure (display first) res]\<rparr>"
    from body InvocationFailure run have "runLoop exec k cwd p b rest ?ls1 = (r, ls')" by simp
    from runLoop_log[OF this] blk show ?thesis by auto
  next
    case HardFailure
    with body run blk show ?thesis by auto
  qed
qed

lemma traceBlocks_no_base_probe: "traceBlocks b tr \<Longrightarrow> Probed b ok \<notin> set tr"
  by (induction b tr rule: traceBlocks.induct) auto

lemma Ran_visited: "traceBlocks b tr \<Longrightarrow> Ran i res \<in> set tr \<Longrightarrow> i \<in> set (visited tr)"
  by (induction b tr rule: traceBlocks.induct) auto

lemma Probed_visited: "Probed i ok \<in> set tr \<Longrightarrow> i \<in> set (visited tr)"
  by (induction tr rule: visited.induct) auto

lemma failed_probe_not_run:
  assumes "traceBlocks b tr" and "distinct (visited tr)" and "Probed i False \<in> set tr"
  shows "Ran i res \<notin> set tr"
  using assms
proof (induction b tr rule: traceBlocks.induct)
  case (2 baseId j result tr)
  then show ?case by (auto dest: traceBlocks_no_base_probe)
next
  case (3 baseId j tr)
  then show ?case by (auto dest: Ran_visited)
next
  case (4 baseId j j' result tr)
  then show ?case by (auto dest: Probed_visited)
qed simp_all

lemma runOrder_distinct:
  assumes "isRouteAvailable (cfgEnableWslRoutes w1) k (route_id base)"
  shows "distinct (map route_id (runOrder w1 k base))"
proof -
  let ?cands = "getCliRouteCandidates (cfgEnableWslRoutes w1) k"
  from runOrder_shape[OF assms] obtain first where
    i: "route_id first = route_id base"
    and o: "runOrder w1 k base = first # filter (\<lambda>route. route_id route \<noteq> route_id base) ?cands"
    by blast
  have "distinct (map route_id (filter (\<lambda>route. route_id route \<noteq> route_id base) ?cands))"
    by (rule distinct_map_filter) (rule candidates_ids_distinct)
  with i o show ?thesis by auto
qed

lemma runCliFix_unfold:
  assumes base: "getCliRoute exec probeCwd k False w = (Some base, w1)"
      and run: "runCliFix exec probeCwd cwd p k w = (result, w', tr)"
  shows "\<exists>succeeded ls.
           runLoop exec k cwd p (route_id base) (runOrder w1 k base) (initialLoopState w1) = (succeeded, ls)
         \<and> tr = trace ls
         \<and> (case succeeded of
               Some route \<Rightarrow> result = Inr route \<and> w' = world ls
             | None \<Rightarrow> result = Inl (FixFailed (failures ls))
                  \<and> w' = (if sawInvocationFailureOnly ls
                          then setCachedCliRoute k None (world ls) else world ls))"
proof -
  obtain succeeded ls where
    l: "runLoop exec k cwd p (route_id base) (runOrder w1 k base) (initialLoopState w1) = (succeeded, ls)"
    by (cases "runLoop exec k cwd p (route_id base) (runOrder w1 k base) (initialLoopState w1)")
  with base run show ?thesis
    by (cases succeeded) (auto simp: runCliFix_def)
qed

lemma allRuns_member:
  "allRunsInvocationFailures tr \<Longrightarrow> Ran i res \<in> set tr \<Longrightarrow> classify res = InvocationFailure"
  by (auto simp: allRunsInvocationFailures_def list_all_iff isInvocationFailureEvent_def)

subsection \<open>Fixer Runner: the invocation\<close>

text \<open>
  Claim C1, as the code has it. When every run that an invocation of the Fixer Runner
  attempted was classified as an invocation failure (also when it attempted none), the
  invocation ends with the fixer kind's cache entry set to null, the known-bad entry that
  a failed discovery records, and, when a base route had been resolved, with no persisted
  route id readable for the kind. The next non-forced resolve for the kind, in any
  environment, returns null at once and leaves the state as it is: it runs no discovery.
\<close>

theorem C1_invocation_failures_record_null:
  assumes run: "runCliFix exec probeCwd cwd cliPrompt fixerId w = (result, w', tr)"
      and inv: "allRunsInvocationFailures tr"
  shows "cliRouteCache w' fixerId = Some None
       \<and> (result \<noteq> Inl NoWorkingRoute \<longrightarrow> getPersistedRouteId w' fixerId = None)
       \<and> getCliRoute exec2 probeCwd2 fixerId False w' = (None, w')"
proof -
  obtain baseRoute w1 where g: "getCliRoute exec probeCwd fixerId False w = (baseRoute, w1)"
    by (cases "getCliRoute exec probeCwd fixerId False w")
  show ?thesis
  proof (cases baseRoute)
    case None
    with g run have "result = Inl NoWorkingRoute" and "w' = w1"
      by (auto simp: runCliFix_def)
    moreover from getCliRoute_result[OF g] None have "cliRouteCache w1 fixerId = Some None"
      by simp
    ultimately show ?thesis by (simp add: getCliRoute_known_bad)
  next
    case (Some base)
    with g have base: "getCliRoute exec probeCwd fixerId False w = (Some base, w1)" by simp
    from runCliFix_unfold[OF base run] obtain succeeded ls where
      l: "runLoop exec fixerId cwd cliPrompt (route_id base) (runOrder w1 fixerId base)
            (initialLoopState w1) = (succeeded, ls)"
      and tr: "tr = trace ls"
      and out: "case succeeded of
               Some route \<Rightarrow> result = Inr route \<and> w' = world ls
             | None \<Rightarrow> result = Inl (FixFailed (failures ls))
                  \<and> w' = (if sawInvocationFailureOnly ls
                          then setCachedCliRoute fixerId None (world ls) else world ls)"
      by blast
    from runLoop_flag[OF l] tr
    have flag: "succeeded = None \<longrightarrow> sawInvocationFailureOnly ls = allRunsInvocationFailures tr"
      and succ: "succeeded \<noteq> None \<longrightarrow> \<not> allRunsInvocationFailures tr"
      by (auto simp: initialLoopState_def)
    from succ inv have none: "succeeded = None" by blast
    with flag inv have "sawInvocationFailureOnly ls" by simp
    with none out have "w' = setCachedCliRoute fixerId None (world ls)" by simp
    then show ?thesis
      by (simp add: setCachedCliRoute_cache setCachedCliRoute_cleared getCliRoute_known_bad)
  qed
qed

text \<open>
  Claim C6. For every invocation of the Fixer Runner with a resolved base route, the list
  the loop iterates is the candidate with the base route's id followed by the other
  candidates in Catalog order. The log of the loop starts with the run of the base route,
  is a sequence of well-formed blocks (the base route run with no probe, every other route
  probed first and run only directly after its own successful probe), visits a prefix of
  that list in order, never probes the base route, and never runs a route whose probe
  failed.
\<close>

theorem C6_base_first_others_probed:
  assumes base: "getCliRoute exec probeCwd fixerId False w = (Some base, w1)"
      and run: "runCliFix exec probeCwd cwd cliPrompt fixerId w = (result, w', tr)"
  shows "(\<exists>first. find (\<lambda>route. route_id route = route_id base)
                    (getCliRouteCandidates (cfgEnableWslRoutes w1) fixerId) = Some first
            \<and> runOrder w1 fixerId base
                = first # filter (\<lambda>route. route_id route \<noteq> route_id base)
                            (getCliRouteCandidates (cfgEnableWslRoutes w1) fixerId))
       \<and> (\<exists>res more. tr = Ran (route_id base) res # more)
       \<and> traceBlocks (route_id base) tr
       \<and> visited tr = take (length (visited tr)) (map route_id (runOrder w1 fixerId base))
       \<and> (\<forall>ok. Probed (route_id base) ok \<notin> set tr)
       \<and> (\<forall>i res. Probed i False \<in> set tr \<longrightarrow> Ran i res \<notin> set tr)"
proof -
  from getCliRoute_result[OF base]
  have avail: "isRouteAvailable (cfgEnableWslRoutes w1) fixerId (route_id base)" by auto
  from runOrder_shape[OF avail] obtain first where
    f: "find (\<lambda>route. route_id route = route_id base)
          (getCliRouteCandidates (cfgEnableWslRoutes w1) fixerId) = Some first"
    and i: "route_id first = route_id base"
    and o: "runOrder w1 fixerId base
              = first # filter (\<lambda>route. route_id route \<noteq> route_id base)
                          (getCliRouteCandidates (cfgEnableWslRoutes w1) fixerId)"
    by blast
  from runCliFix_unfold[OF base run] obtain succeeded ls where
    l: "runLoop exec fixerId cwd cliPrompt (route_id base) (runOrder w1 fixerId base)
          (initialLoopState w1) = (succeeded, ls)"
    and tr: "tr = trace ls"
    by blast
  from runLoop_log[OF l] tr
  have blocks: "traceBlocks (route_id base) tr"
    and vis: "visited tr = take (length (visited tr)) (map route_id (runOrder w1 fixerId base))"
    by (auto simp: initialLoopState_def)
  from l o have "runLoop exec fixerId cwd cliPrompt (route_id base)
          (first # filter (\<lambda>route. route_id route \<noteq> route_id base)
                          (getCliRouteCandidates (cfgEnableWslRoutes w1) fixerId))
          (initialLoopState w1) = (succeeded, ls)" by simp
  from runLoop_base_first[OF this i] tr
  have firstrun: "\<exists>res more. tr = Ran (route_id base) res # more"
    by (simp add: initialLoopState_def)
  from vis runOrder_distinct[OF avail] have "distinct (visited tr)"
    by (metis distinct_take)
  with blocks have skip: "\<forall>i res. Probed i False \<in> set tr \<longrightarrow> Ran i res \<notin> set tr"
    using failed_probe_not_run by blast
  from blocks have "\<forall>ok. Probed (route_id base) ok \<notin> set tr"
    using traceBlocks_no_base_probe by blast
  with f o firstrun blocks vis skip show ?thesis by blast
qed

text \<open>
  Claim C5. Take an invocation with a resolved base route in which some run printed a
  read-only-sandbox notice. If the invocation fails, the failure list has the sandbox
  entry of that route, and the cache and the persisted ids are what they were after the
  resolve, the base route still being the cached one (no clearing, no overwriting). If it
  succeeds, the cache holds the route that succeeded. And the notice does not stop the
  loop: when that run is the last event of the log, every candidate has been visited.
\<close>

theorem C5_sandbox_notice_soft:
  assumes base: "getCliRoute exec probeCwd fixerId False w = (Some base, w1)"
      and run: "runCliFix exec probeCwd cwd cliPrompt fixerId w = (result, w', tr)"
      and ev: "Ran i res \<in> set tr"
      and sb: "isReadOnlySandboxNotice res"
  shows "(\<forall>fs. result = Inl (FixFailed fs) \<longrightarrow>
            (\<exists>route \<in> set (runOrder w1 fixerId base).
                route_id route = i \<and> SandboxFailure (display route) \<in> set fs)
            \<and> cliRouteCache w' = cliRouteCache w1 \<and> globalState w' = globalState w1
            \<and> cliRouteCache w' fixerId = Some (Some base))
       \<and> (\<forall>route. result = Inr route \<longrightarrow> cliRouteCache w' fixerId = Some (Some route))
       \<and> result \<noteq> Inl NoWorkingRoute
       \<and> ((\<exists>pre. tr = pre @ [Ran i res]) \<longrightarrow>
             visited tr = map route_id (runOrder w1 fixerId base))"
proof -
  from getCliRoute_result[OF base]
  have cached: "cliRouteCache w1 fixerId = Some (Some base)" by simp
  from runCliFix_unfold[OF base run] obtain succeeded ls where
    l: "runLoop exec fixerId cwd cliPrompt (route_id base) (runOrder w1 fixerId base)
          (initialLoopState w1) = (succeeded, ls)"
    and tr: "tr = trace ls"
    and out: "case succeeded of
               Some route \<Rightarrow> result = Inr route \<and> w' = world ls
             | None \<Rightarrow> result = Inl (FixFailed (failures ls))
                  \<and> w' = (if sawInvocationFailureOnly ls
                          then setCachedCliRoute fixerId None (world ls) else world ls)"
    by blast
  from sb have cls: "classify res = SandboxNotice" by (simp add: classify_simps)
  with ev have notall: "\<not> allRunsInvocationFailures tr"
    using allRuns_member by fastforce
  from runLoop_flag[OF l] tr notall
  have flag: "succeeded = None \<longrightarrow> \<not> sawInvocationFailureOnly ls"
    by (auto simp: initialLoopState_def)
  from runLoop_verdicts[OF l]
  have verd: "case succeeded of
           None \<Rightarrow> sameVerdicts w1 (world ls)
         | Some route \<Rightarrow> route \<in> set (runOrder w1 fixerId base)
             \<and> (\<exists>w2. sameVerdicts w1 w2 \<and> world ls = setCachedCliRoute fixerId (Some route) w2)"
    by (cases succeeded) (simp_all add: initialLoopState_def)
  from runLoop_sandbox_recorded[OF l] tr ev sb
  have rec: "\<exists>route \<in> set (runOrder w1 fixerId base).
                route_id route = i \<and> SandboxFailure (display route) \<in> set (failures ls)"
    by (auto simp: initialLoopState_def)
  from runLoop_stop[OF l] tr
  have stop: "visited tr = map route_id (runOrder w1 fixerId base)
              \<or> (\<exists>pre j r. tr = pre @ [Ran j r]
                    \<and> (classify r = HardFailure \<or> classify r = Success))"
    by (auto simp: initialLoopState_def)
  have last: "(\<exists>pre. tr = pre @ [Ran i res]) \<longrightarrow>
             visited tr = map route_id (runOrder w1 fixerId base)"
  proof
    assume "\<exists>pre. tr = pre @ [Ran i res]"
    then obtain pre where p: "tr = pre @ [Ran i res]" by blast
    from stop show "visited tr = map route_id (runOrder w1 fixerId base)"
    proof
      assume "visited tr = map route_id (runOrder w1 fixerId base)"
      then show ?thesis .
    next
      assume "\<exists>pre j r. tr = pre @ [Ran j r]
                    \<and> (classify r = HardFailure \<or> classify r = Success)"
      then obtain pre' j r where "tr = pre' @ [Ran j r]"
        and c: "classify r = HardFailure \<or> classify r = Success" by blast
      with p have "r = res" by simp
      with c cls show ?thesis by simp
    qed
  qed
  show ?thesis
  proof (cases succeeded)
    case None
    with out flag have r: "result = Inl (FixFailed (failures ls))" and w: "w' = world ls"
      by simp_all
    from verd None have "sameVerdicts w1 (world ls)" by simp
    with w cached have "cliRouteCache w' = cliRouteCache w1" "globalState w' = globalState w1"
      "cliRouteCache w' fixerId = Some (Some base)"
      by (simp_all add: sameVerdicts_def)
    with r rec last show ?thesis by auto
  next
    case (Some route)
    with out have r: "result = Inr route" and w: "w' = world ls" by simp_all
    from verd Some obtain w2 where "world ls = setCachedCliRoute fixerId (Some route) w2"
      by auto
    with w have "cliRouteCache w' fixerId = Some (Some route)"
      by (simp add: setCachedCliRoute_cache)
    with r last show ?thesis by auto
  qed
qed

subsection \<open>The sample invocations\<close>

lemma sample_base:
  "getCliRoute exec ''/ws'' ClaudeCli False sampleWorld = (Some (hd getClaudeCliRoutes), sampleWorld)"
  by (simp add: getCliRoute_def sampleWorld_def isRouteAvailable_def getCliRouteCandidates_def
        catalog_defs startsWith_def)

lemmas sample_eval_defs =
  loopBody_def awaitRunCommand_def probeRoute_def probeKey_def
  helpOnlyExecutor_def sandboxFirstExecutor_def sandboxNoticeResult_def exit127_def
  isReadOnlySandboxNotice_def isProcessSuccess_def isInvocationFailure_def noErrorCode_def
  outputLower_def toLowerCase_def lower_char_def startsWith_def setCachedCliRoute_def Let_def
  CLI_RUN_TIMEOUT_MS_def CLI_PROBE_TIMEOUT_MS_def quoteForPosixShell_def
  sampleWorld_def orderRoutesWithPreferred_def getCliRouteCandidates_def catalog_defs
  initialLoopState_def runOrder_def

lemma exit127_class: "classify exit127 = InvocationFailure"
  by (simp add: classify_def sample_eval_defs)

lemma sandboxNotice_class: "isReadOnlySandboxNotice sandboxNoticeResult"
  by (simp add: sample_eval_defs)

lemma helpOnly_trace:
  "snd (snd (runCliFix helpOnlyExecutor ''/ws'' ''/ws'' ''fix'' ClaudeCli sampleWorld)) =
    [Ran ''native:claude:p'' exit127,
     Probed ''native:claude:print'' True, Ran ''native:claude:print'' exit127,
     Probed ''bash:claude:p'' False, Probed ''native:claude-cli:p'' False,
     Probed ''native:claude-cli:print'' False, Probed ''bash:claude-cli:p'' False]"
  by (simp add: runCliFix_def sample_base) (simp add: sample_eval_defs)

lemma helpOnly_all_invocation_failures:
  "allRunsInvocationFailures
     (snd (snd (runCliFix helpOnlyExecutor ''/ws'' ''/ws'' ''fix'' ClaudeCli sampleWorld)))"
  unfolding helpOnly_trace
  by (simp add: allRunsInvocationFailures_def isInvocationFailureEvent_def exit127_class)

lemma helpOnly_cache:
  "cliRouteCache (fst (snd (runCliFix helpOnlyExecutor ''/ws'' ''/ws'' ''fix'' ClaudeCli sampleWorld)))
     ClaudeCli = Some None"
  by (simp add: runCliFix_def sample_base) (simp add: sample_eval_defs)

lemma helpOnly_rediscovery:
  "map_option route_id
     (fst (discoverCliRoute helpOnlyExecutor ''/ws'' ClaudeCli
        (fst (snd (runCliFix helpOnlyExecutor ''/ws'' ''/ws'' ''fix'' ClaudeCli sampleWorld)))))
    = Some ''native:claude:p''"
  by (simp add: runCliFix_def sample_base)
     (simp add: sample_eval_defs discoverCliRoute_def discoveryRoutes_def getPersistedRouteId_def
        getDiscoveryPreferredRouteId_def)

lemma sandboxFirst_trace:
  "snd (snd (runCliFix sandboxFirstExecutor ''/ws'' ''/ws'' ''fix'' ClaudeCli sampleWorld)) =
    [Ran ''native:claude:p'' sandboxNoticeResult,
     Probed ''native:claude:print'' False, Probed ''bash:claude:p'' False,
     Probed ''native:claude-cli:p'' False, Probed ''native:claude-cli:print'' False,
     Probed ''bash:claude-cli:p'' False]"
  by (simp add: runCliFix_def sample_base) (simp add: sample_eval_defs)

theorem C1_invocation_failures_record_null_witness:
  "allRunsInvocationFailures
     (snd (snd (runCliFix helpOnlyExecutor ''/ws'' ''/ws'' ''fix'' ClaudeCli sampleWorld)))
   \<and> getCliRoute sandboxFirstExecutor ''/elsewhere'' ClaudeCli False
        (fst (snd (runCliFix helpOnlyExecutor ''/ws'' ''/ws'' ''fix'' ClaudeCli sampleWorld)))
      = (None, fst (snd (runCliFix helpOnlyExecutor ''/ws'' ''/ws'' ''fix'' ClaudeCli sampleWorld)))"
proof -
  let ?R = "runCliFix helpOnlyExecutor ''/ws'' ''/ws'' ''fix'' ClaudeCli sampleWorld"
  have run: "?R = (fst ?R, fst (snd ?R), snd (snd ?R))" by simp
  from C1_invocation_failures_record_null[OF run helpOnly_all_invocation_failures]
  show ?thesis using helpOnly_all_invocation_failures by blast
qed

text \<open>
  The claim as stated fails on the first sample: every run of the invocation is an
  invocation failure, the invocation leaves the cache entry null (known-bad, not absent),
  and the next resolve returns null and changes nothing, although a discovery from that
  state would have found \<open>native:claude:p\<close>.
\<close>

theorem C1_cleared_to_unresolved_counterexample:
  "allRunsInvocationFailures
     (snd (snd (runCliFix helpOnlyExecutor ''/ws'' ''/ws'' ''fix'' ClaudeCli sampleWorld)))
   \<and> cliRouteCache (fst (snd (runCliFix helpOnlyExecutor ''/ws'' ''/ws'' ''fix'' ClaudeCli sampleWorld)))
        ClaudeCli = Some None
   \<and> getCliRoute helpOnlyExecutor ''/ws'' ClaudeCli False
        (fst (snd (runCliFix helpOnlyExecutor ''/ws'' ''/ws'' ''fix'' ClaudeCli sampleWorld)))
      = (None, fst (snd (runCliFix helpOnlyExecutor ''/ws'' ''/ws'' ''fix'' ClaudeCli sampleWorld)))
   \<and> map_option route_id
        (fst (discoverCliRoute helpOnlyExecutor ''/ws'' ClaudeCli
           (fst (snd (runCliFix helpOnlyExecutor ''/ws'' ''/ws'' ''fix'' ClaudeCli sampleWorld)))))
      = Some ''native:claude:p''"
  using helpOnly_all_invocation_failures helpOnly_cache helpOnly_rediscovery
    getCliRoute_known_bad[OF helpOnly_cache]
  by simp

theorem C6_base_first_others_probed_witness:
  "getCliRoute helpOnlyExecutor ''/ws'' ClaudeCli False sampleWorld
     = (Some (hd getClaudeCliRoutes), sampleWorld)
   \<and> traceBlocks (route_id (hd getClaudeCliRoutes))
        (snd (snd (runCliFix helpOnlyExecutor ''/ws'' ''/ws'' ''fix'' ClaudeCli sampleWorld)))
   \<and> visited (snd (snd (runCliFix helpOnlyExecutor ''/ws'' ''/ws'' ''fix'' ClaudeCli sampleWorld)))
      = map route_id (runOrder sampleWorld ClaudeCli (hd getClaudeCliRoutes))"
proof -
  let ?R = "runCliFix helpOnlyExecutor ''/ws'' ''/ws'' ''fix'' ClaudeCli sampleWorld"
  have run: "?R = (fst ?R, fst (snd ?R), snd (snd ?R))" by simp
  have v: "visited (snd (snd ?R)) = map route_id (runOrder sampleWorld ClaudeCli (hd getClaudeCliRoutes))"
    unfolding helpOnly_trace by (simp add: sample_eval_defs)
  from C6_base_first_others_probed[OF sample_base run]
  have "traceBlocks (route_id (hd getClaudeCliRoutes)) (snd (snd ?R))" by blast
  with sample_base v show ?thesis by blast
qed

theorem C5_sandbox_notice_soft_witness:
  "getCliRoute sandboxFirstExecutor ''/ws'' ClaudeCli False sampleWorld
     = (Some (hd getClaudeCliRoutes), sampleWorld)
   \<and> Ran ''native:claude:p'' sandboxNoticeResult
        \<in> set (snd (snd (runCliFix sandboxFirstExecutor ''/ws'' ''/ws'' ''fix'' ClaudeCli sampleWorld)))
   \<and> isReadOnlySandboxNotice sandboxNoticeResult
   \<and> fst (runCliFix sandboxFirstExecutor ''/ws'' ''/ws'' ''fix'' ClaudeCli sampleWorld)
        \<noteq> Inl NoWorkingRoute"
proof -
  let ?R = "runCliFix sandboxFirstExecutor ''/ws'' ''/ws'' ''fix'' ClaudeCli sampleWorld"
  have run: "?R = (fst ?R, fst (snd ?R), snd (snd ?R))" by simp
  have ev: "Ran ''native:claude:p'' sandboxNoticeResult \<in> set (snd (snd ?R))"
    unfolding sandboxFirst_trace by simp
  from C5_sandbox_notice_soft[OF sample_base run ev sandboxNotice_class]
  have "fst ?R \<noteq> Inl NoWorkingRoute" by blast
  with sample_base ev sandboxNotice_class show ?thesis by blast
qed

end
